(* ===== verification/Smart_Prelude.thy ===== *)
theory Smart_Prelude
  imports Main "HOL-Library.Word"
begin

text \<open>
  Shared vocabulary of the Smart OS development: the machine integer types of the
  Rust sources, results as sums, byte strings and their little-endian encodings,
  and the generic lemmas the component theories use.
\<close>

unbundle bit_operations_syntax

section \<open>Names of the machine types\<close>

type_synonym u8 = "8 word"
type_synonym u16 = "16 word"
type_synonym u32 = "32 word"
type_synonym u64 = "64 word"
type_synonym u128 = "128 word"
type_synonym bytes = "u8 list"

named_theorems codec_simps \<open>evaluation rules of the codecs on appended input\<close>
named_theorems inv_intros \<open>preservation of component invariants\<close>

section \<open>Results\<close>

text \<open>
  A Rust \<open>Result\<close> is a sum, \<open>Inl\<close> the error. \<open>rbind\<close> is the question mark
  operator of a function without state; \<open>sbind\<close> is the question mark operator of a
  method on a mutable receiver: the receiver is returned on the error path too.
\<close>

fun rbind :: "'e + 'a \<Rightarrow> ('a \<Rightarrow> 'e + 'b) \<Rightarrow> 'e + 'b" where
  "rbind (Inl e) f = Inl e"
| "rbind (Inr x) f = f x"

fun ok_or :: "'e \<Rightarrow> 'a option \<Rightarrow> 'e + 'a" where
  "ok_or e None = Inl e"
| "ok_or e (Some x) = Inr x"

fun sbind :: "('e + 'a) \<times> 's \<Rightarrow> ('a \<Rightarrow> 's \<Rightarrow> ('e + 'b) \<times> 's) \<Rightarrow> ('e + 'b) \<times> 's" where
  "sbind (Inl e, s) f = (Inl e, s)"
| "sbind (Inr x, s) f = f x s"

lemma rbind_Inr_iff: "rbind m f = Inr y \<longleftrightarrow> (\<exists>x. m = Inr x \<and> f x = Inr y)"
  by (cases m) auto

lemma sbind_Inr_iff:
  "sbind m f = (Inr y, s') \<longleftrightarrow> (\<exists>x s. m = (Inr x, s) \<and> f x s = (Inr y, s'))"
  by (cases m rule: prod.exhaust, cases "fst m") auto

lemma sbind_cong_Inr:
  assumes "\<And>x s. m = (Inr x, s) \<Longrightarrow> f x s = g x s"
  shows "sbind m f = sbind m g"
proof -
  obtain r s where m: "m = (r, s)" by fastforce
  show ?thesis using assms by (cases r) (simp_all add: m)
qed

lemma ok_or_Inr_iff [simp]: "ok_or e m = Inr x \<longleftrightarrow> m = Some x"
  by (cases m) auto

section \<open>Words\<close>

lemma unat_of_nat_less [simp]:
  "n < 2 ^ LENGTH('a) \<Longrightarrow> unat (of_nat n :: 'a::len word) = n"
  by (simp add: unat_of_nat take_bit_nat_eq_self)

lemma unat_u8_less [simp]: "unat (b :: u8) < 256"
  using unsigned_less [of b] by simp

lemma less_Suc_word:
  assumes "w \<noteq> - 1"
  shows "w < w + (1 :: 'a::len word)"
proof -
  have "unat w \<noteq> 2 ^ LENGTH('a) - 1"
    using assms by (metis unsigned_minus_1_eq_mask mask_eq_exp_minus_1 word_unat_eq_iff)
  moreover have "unat w < 2 ^ LENGTH('a)" by (rule unsigned_less)
  ultimately have "unat w + 1 < 2 ^ LENGTH('a)" by linarith
  then show ?thesis
    by (simp add: word_less_nat_alt unat_word_ariths)
qed

lemma Suc4: "Suc (Suc (Suc (Suc n))) = n + 4"
  by simp

section \<open>Ring arithmetic\<close>

lemma mod_ring_eq:
  assumes "a < N" "b < (N :: nat)"
  shows "(c + a) mod N = (c + b) mod N \<longleftrightarrow> a = b"
proof
  have cancel: "(c + x + (N - c mod N)) mod N = x mod N" for x
  proof -
    have "c + x + (N - c mod N) = x + N * (c div N + 1)"
      using mod_less_divisor [of N c] mult_div_mod_eq [of N c] assms
      unfolding distrib_left by linarith
    then show ?thesis by (simp only: mod_mult_self2)
  qed
  assume "(c + a) mod N = (c + b) mod N"
  then have "(c + a + (N - c mod N)) mod N = (c + b + (N - c mod N)) mod N"
    by (metis mod_add_left_eq)
  then show "a = b" using assms unfolding cancel by simp
qed simp

section \<open>Little-endian byte strings\<close>

fun le_bytes :: "nat \<Rightarrow> nat \<Rightarrow> bytes" where
  "le_bytes 0 v = []"
| "le_bytes (Suc n) v = of_nat (v mod 256) # le_bytes n (v div 256)"

fun le_nat :: "bytes \<Rightarrow> nat" where
  "le_nat [] = 0"
| "le_nat (b # bs) = unat b + 256 * le_nat bs"

lemma length_le_bytes [simp]: "length (le_bytes n v) = n"
  by (induction n arbitrary: v) auto

lemma le_nat_le_bytes: "le_nat (le_bytes n v) = v mod 256 ^ n"
proof (induction n arbitrary: v)
  case 0
  then show ?case by simp
next
  case (Suc n)
  have "v mod 256 + 256 * (v div 256 mod 256 ^ n) = v mod (256 * 256 ^ n)"
    by (simp add: mod_mult2_eq)
  with Suc show ?case by simp
qed

lemma le_nat_bound: "le_nat bs < 256 ^ length bs"
proof (induction bs)
  case Nil
  then show ?case by simp
next
  case (Cons b bs)
  have "unat b + 256 * le_nat bs < 256 + 256 * le_nat bs"
    by simp
  also have "\<dots> \<le> 256 * 256 ^ length bs"
    using Cons by simp
  finally show ?case by simp
qed

lemma le_bytes_le_nat: "le_bytes (length bs) (le_nat bs) = bs"
proof (induction bs)
  case Nil
  then show ?case by simp
next
  case (Cons b bs)
  have "(unat b + 256 * le_nat bs) mod 256 = unat b"
    and "(unat b + 256 * le_nat bs) div 256 = le_nat bs"
    by simp_all
  with Cons show ?case by simp
qed

text \<open>Rust's \<open>to_le_bytes\<close> and \<open>from_le_bytes\<close> on an unsigned integer of any width.\<close>

definition to_le_bytes :: "'a::len word \<Rightarrow> bytes" where
  "to_le_bytes w = le_bytes (LENGTH('a) div 8) (unat w)"

definition from_le_bytes :: "bytes \<Rightarrow> 'a::len word" where
  "from_le_bytes bs = of_nat (le_nat bs)"

lemma length_to_le_bytes [simp]:
  "length (to_le_bytes (w :: 'a::len word)) = LENGTH('a) div 8"
  by (simp add: to_le_bytes_def)

lemma from_to_le_bytes:
  assumes "8 dvd LENGTH('a)"
  shows "from_le_bytes (to_le_bytes w) = (w :: 'a::len word)"
proof -
  have "(256 :: nat) ^ (LENGTH('a) div 8) = 2 ^ (8 * (LENGTH('a) div 8))"
    by (simp add: power_mult)
  also have "\<dots> = 2 ^ LENGTH('a)"
    using assms by simp
  finally have "(256 :: nat) ^ (LENGTH('a) div 8) = 2 ^ LENGTH('a)" .
  then show ?thesis
    by (simp add: from_le_bytes_def to_le_bytes_def le_nat_le_bytes)
qed

lemma from_to_le_bytes_u16 [simp]: "from_le_bytes (to_le_bytes w) = (w :: u16)"
  by (rule from_to_le_bytes) simp

lemma from_to_le_bytes_u32 [simp]: "from_le_bytes (to_le_bytes w) = (w :: u32)"
  by (rule from_to_le_bytes) simp

lemma from_to_le_bytes_u64 [simp]: "from_le_bytes (to_le_bytes w) = (w :: u64)"
  by (rule from_to_le_bytes) simp

lemma from_to_le_bytes_u128 [simp]: "from_le_bytes (to_le_bytes w) = (w :: u128)"
  by (rule from_to_le_bytes) simp

section \<open>Slices\<close>

text \<open>The subslice \<open>xs[i..i + n]\<close> of a Rust slice, for a range that is in bounds.\<close>

definition subslice :: "nat \<Rightarrow> nat \<Rightarrow> 'a list \<Rightarrow> 'a list" where
  "subslice i n xs = take n (drop i xs)"

lemma length_subslice [simp]: "i + n \<le> length xs \<Longrightarrow> length (subslice i n xs) = n"
  by (simp add: subslice_def)

lemma subslice_append_mid [simp]: "subslice (length xs) (length ys) (xs @ ys @ zs) = ys"
  by (simp add: subslice_def)

lemma subslice_0 [simp]: "subslice i 0 xs = []"
  by (simp add: subslice_def)

lemma subslice_Suc: "i < length xs \<Longrightarrow> subslice i (Suc n) xs = xs ! i # subslice (Suc i) n xs"
  by (simp add: subslice_def Cons_nth_drop_Suc [symmetric])

lemma subslice_append: "subslice i (m + n) xs = subslice i m xs @ subslice (i + m) n xs"
  by (simp add: subslice_def take_add add.commute)

section \<open>Ordered maps\<close>

text \<open>
  A \<open>BTreeMap\<close> is a map; iteration goes through the keys in ascending order.
\<close>

definition map_keys :: "('k::linorder \<rightharpoonup> 'v) \<Rightarrow> 'k list" where
  "map_keys m = sorted_list_of_set (dom m)"

definition map_values :: "('k::linorder \<rightharpoonup> 'v) \<Rightarrow> 'v list" where
  "map_values m = map (\<lambda>k. the (m k)) (map_keys m)"

definition map_len :: "('k \<rightharpoonup> 'v) \<Rightarrow> nat" where
  "map_len m = card (dom m)"

lemma set_map_keys [simp]: "finite (dom m) \<Longrightarrow> set (map_keys m) = dom m"
  by (simp add: map_keys_def)

lemma map_keys_empty [simp]: "map_keys Map.empty = []"
  by (simp add: map_keys_def)

lemma set_map_values: "finite (dom m) \<Longrightarrow> set (map_values m) = ran m"
  by (force simp: map_values_def ran_def)

lemma length_map_keys: "length (map_keys m) = map_len m"
  by (simp add: map_keys_def map_len_def)

lemma map_len_upd_new: "finite (dom m) \<Longrightarrow> m k = None \<Longrightarrow> map_len (m(k \<mapsto> v)) = map_len m + 1"
  by (simp add: map_len_def domIff)

lemma map_len_upd_old: "m k = Some w \<Longrightarrow> map_len (m(k \<mapsto> v)) = map_len m"
  by (simp add: map_len_def insert_absorb domI)

lemma map_len_remove: "finite (dom m) \<Longrightarrow> m k = Some v \<Longrightarrow> map_len (m(k := None)) = map_len m - 1"
  by (simp add: map_len_def domI)

section \<open>Strings\<close>

text \<open>Rust's \<open>starts_with\<close>.\<close>

definition starts_with :: "string \<Rightarrow> string \<Rightarrow> bool" where
  "starts_with s pfx \<longleftrightarrow> take (length pfx) s = pfx"

section \<open>Formatting\<close>

text \<open>The decimal form of an integer in a format string.\<close>

fun show_nat :: "nat \<Rightarrow> string" where
  "show_nat n =
     (if n < 10 then [char_of (48 + n)] else show_nat (n div 10) @ [char_of (48 + n mod 10)])"

declare show_nat.simps [simp del]

end
