(* ===== verification/Pack_Types.thy ===== *)
theory Pack_Types
  imports Pack_Format
begin

text \<open>
  The dynamically typed value of SmartPack (\<open>smartpack/src/types.rs\<close>) with its
  accessors and conversions. Signed integers are words read in two's complement,
  floats are their IEEE bit patterns (the codec only copies them), and a Rust
  \<open>String\<close> is its UTF-8 byte sequence: \<open>utf8_valid\<close> is the well-formedness test
  of \<open>core::str::from_utf8\<close>.
\<close>

section \<open>UTF-8\<close>

definition in_range :: "u8 \<Rightarrow> u8 \<Rightarrow> u8 \<Rightarrow> bool" where
  "in_range lo hi b \<longleftrightarrow> lo \<le> b \<and> b \<le> hi"

fun utf8_valid :: "bytes \<Rightarrow> bool" where
  "utf8_valid [] = True"
| "utf8_valid (b # bs) =
     (if b \<le> 0x7F then utf8_valid bs
      else if in_range 0xC2 0xDF b then
        (case bs of c # bs' \<Rightarrow> in_range 0x80 0xBF c \<and> utf8_valid bs' | _ \<Rightarrow> False)
      else if in_range 0xE0 0xEF b then
        (case bs of c # d # bs' \<Rightarrow>
           in_range (if b = 0xE0 then 0xA0 else 0x80) (if b = 0xED then 0x9F else 0xBF) c
           \<and> in_range 0x80 0xBF d \<and> utf8_valid bs' | _ \<Rightarrow> False)
      else if in_range 0xF0 0xF4 b then
        (case bs of c # d # e # bs' \<Rightarrow>
           in_range (if b = 0xF0 then 0x90 else 0x80) (if b = 0xF4 then 0x8F else 0xBF) c
           \<and> in_range 0x80 0xBF d \<and> in_range 0x80 0xBF e \<and> utf8_valid bs' | _ \<Rightarrow> False)
      else False)"

definition ascii :: "string \<Rightarrow> bytes" where
  "ascii s = map of_char s"

lemma utf8_valid_ascii: "\<forall>b\<in>set bs. b \<le> 0x7F \<Longrightarrow> utf8_valid bs"
  by (induction bs) auto

section \<open>Values\<close>

datatype pack_value =
    Null
  | Bool bool
  | UInt8 u8
  | UInt16 u16
  | UInt32 u32
  | UInt64 u64
  | UInt128 u128
  | Int8 u8
  | Int16 u16
  | Int32 u32
  | Int64 u64
  | Float32 u32
  | Float64 u64
  | String bytes
  | Binary bytes
  | Array "pack_value list"
  | Map "(pack_value \<times> pack_value) list"
  | Timestamp u64
  | Uuid bytes
  | Extension u8 bytes

fun is_null :: "pack_value \<Rightarrow> bool" where
  "is_null Null = True"
| "is_null _ = False"

fun as_bool :: "pack_value \<Rightarrow> bool option" where
  "as_bool (Bool b) = Some b"
| "as_bool _ = None"

fun as_u64 :: "pack_value \<Rightarrow> u64 option" where
  "as_u64 (UInt8 v) = Some (ucast v)"
| "as_u64 (UInt16 v) = Some (ucast v)"
| "as_u64 (UInt32 v) = Some (ucast v)"
| "as_u64 (UInt64 v) = Some v"
| "as_u64 _ = None"

fun as_i64 :: "pack_value \<Rightarrow> u64 option" where
  "as_i64 (Int8 v) = Some (scast v)"
| "as_i64 (Int16 v) = Some (scast v)"
| "as_i64 (Int32 v) = Some (scast v)"
| "as_i64 (Int64 v) = Some v"
| "as_i64 _ = None"

fun as_str :: "pack_value \<Rightarrow> bytes option" where
  "as_str (String s) = Some s"
| "as_str _ = None"

fun as_bytes :: "pack_value \<Rightarrow> bytes option" where
  "as_bytes (Binary b) = Some b"
| "as_bytes _ = None"

fun as_array :: "pack_value \<Rightarrow> pack_value list option" where
  "as_array (Array a) = Some a"
| "as_array _ = None"

fun as_map :: "pack_value \<Rightarrow> (pack_value \<times> pack_value) list option" where
  "as_map (Map m) = Some m"
| "as_map _ = None"

fun type_family :: "pack_value \<Rightarrow> u8" where
  "type_family Null = 0x7"
| "type_family (Bool _) = 0x7"
| "type_family (Timestamp _) = 0x7"
| "type_family (Uuid _) = 0x7"
| "type_family (UInt8 _) = 0x0"
| "type_family (UInt16 _) = 0x0"
| "type_family (UInt32 _) = 0x0"
| "type_family (UInt64 _) = 0x0"
| "type_family (UInt128 _) = 0x0"
| "type_family (Int8 _) = 0x1"
| "type_family (Int16 _) = 0x1"
| "type_family (Int32 _) = 0x1"
| "type_family (Int64 _) = 0x1"
| "type_family (Float32 _) = 0x2"
| "type_family (Float64 _) = 0x2"
| "type_family (String _) = 0x3"
| "type_family (Binary _) = 0x4"
| "type_family (Array _) = 0x5"
| "type_family (Map _) = 0x6"
| "type_family (Extension _ _) = 0x9"

section \<open>Shape predicates\<close>

text \<open>
  What the Rust types guarantee of a value: strings are UTF-8 and a UUID has sixteen
  bytes. \<open>nest\<close> is the number of containers around the deepest leaf, the quantity the
  decoder bounds by \<open>MAX_DEPTH\<close>; \<open>has_ext\<close> finds an extension value.
\<close>

fun wf_value :: "pack_value \<Rightarrow> bool" where
  "wf_value (String s) = utf8_valid s"
| "wf_value (Uuid u) = (length u = 16)"
| "wf_value (Array vs) = list_all wf_value vs"
| "wf_value (Map ps) = list_all (\<lambda>(k, v). wf_value k \<and> wf_value v) ps"
| "wf_value _ = True"

fun nest :: "pack_value \<Rightarrow> nat" where
  "nest (Array vs) = Suc (foldr (\<lambda>v. max (nest v)) vs 0)"
| "nest (Map ps) = Suc (foldr (\<lambda>(k, v). max (max (nest k) (nest v))) ps 0)"
| "nest _ = 0"

fun has_ext :: "pack_value \<Rightarrow> bool" where
  "has_ext (Extension _ _) = True"
| "has_ext (Array vs) = list_ex has_ext vs"
| "has_ext (Map ps) = list_ex (\<lambda>(k, v). has_ext k \<or> has_ext v) ps"
| "has_ext _ = False"

lemma nest_foldr_le:
  "foldr (\<lambda>v. max (nest v)) vs 0 \<le> n \<longleftrightarrow> (\<forall>v\<in>set vs. nest v \<le> n)"
  by (induction vs) auto

lemma nest_foldr_pair_le:
  "foldr (\<lambda>(k, v). max (max (nest k) (nest v))) ps 0 \<le> n
     \<longleftrightarrow> (\<forall>(k, v)\<in>set ps. nest k \<le> n \<and> nest v \<le> n)"
  by (induction ps) auto

lemma nest_Array_le: "nest (Array vs) \<le> Suc n \<longleftrightarrow> (\<forall>v\<in>set vs. nest v \<le> n)"
  by (simp add: nest_foldr_le)

lemma nest_Map_le:
  "nest (Map ps) \<le> Suc n \<longleftrightarrow> (\<forall>(k, v)\<in>set ps. nest k \<le> n \<and> nest v \<le> n)"
  by (simp add: nest_foldr_pair_le)

section \<open>Canonical values\<close>

text \<open>
  An integer is stored at the smallest width that holds it, so decoding returns the
  canonical variant of what was encoded: \<open>canon\<close> says which.
\<close>

definition canon_uint :: "u64 \<Rightarrow> pack_value" where
  "canon_uint v =
     (if v \<le> 0xFF then UInt8 (ucast v)
      else if v \<le> 0xFFFF then UInt16 (ucast v)
      else if v \<le> 0xFFFFFFFF then UInt32 (ucast v)
      else UInt64 v)"

definition canon_int :: "u64 \<Rightarrow> pack_value" where
  "canon_int v =
     (if 0 \<le> sint v then canon_uint v
      else if - (2 ^ 7) \<le> sint v then Int8 (ucast v)
      else if - (2 ^ 15) \<le> sint v then Int16 (ucast v)
      else if - (2 ^ 31) \<le> sint v then Int32 (ucast v)
      else Int64 v)"

fun canon :: "pack_value \<Rightarrow> pack_value" where
  "canon (UInt8 v) = canon_uint (ucast v)"
| "canon (UInt16 v) = canon_uint (ucast v)"
| "canon (UInt32 v) = canon_uint (ucast v)"
| "canon (UInt64 v) = canon_uint v"
| "canon (UInt128 v) =
     (if v \<le> 0xFFFFFFFFFFFFFFFF then canon_uint (ucast v) else UInt128 v)"
| "canon (Int8 v) = canon_int (scast v)"
| "canon (Int16 v) = canon_int (scast v)"
| "canon (Int32 v) = canon_int (scast v)"
| "canon (Int64 v) = canon_int v"
| "canon (Array vs) = Array (map canon vs)"
| "canon (Map ps) = Map (map (\<lambda>(k, v). (canon k, canon v)) ps)"
| "canon v = v"

end
