(* ===== verification/Pack_Encode.thy ===== *)
theory Pack_Encode
  imports Pack_Types
begin

text \<open>
  The SmartPack encoder (\<open>smartpack/src/encode.rs\<close>). The encoder owns a growable
  buffer; a method that can fail returns its result and the buffer, which keeps what
  was written before the failure. The second half shows that a method only ever
  appends to the buffer and gives the appended bytes of each kind of value.
\<close>

section \<open>The encoder\<close>

datatype encode_error =
    BufferTooSmall nat nat
  | StringTooLong nat
  | BinaryTooLong nat
  | ArrayTooLong nat
  | MapTooLong nat

record encoder =
  buf :: bytes

definition encoder_new :: encoder where
  "encoder_new = \<lparr>buf = []\<rparr>"

definition push :: "u8 \<Rightarrow> encoder \<Rightarrow> encoder" where
  "push b e = e\<lparr>buf := buf e @ [b]\<rparr>"

definition extend_from_slice :: "bytes \<Rightarrow> encoder \<Rightarrow> encoder" where
  "extend_from_slice bs e = e\<lparr>buf := buf e @ bs\<rparr>"

definition into_bytes :: "encoder \<Rightarrow> bytes" where
  "into_bytes e = buf e"

definition enc_len :: "encoder \<Rightarrow> nat" where
  "enc_len e = length (buf e)"

definition enc_is_empty :: "encoder \<Rightarrow> bool" where
  "enc_is_empty e \<longleftrightarrow> buf e = []"

definition enc_clear :: "encoder \<Rightarrow> encoder" where
  "enc_clear e = e\<lparr>buf := []\<rparr>"

section \<open>Primitive encoders\<close>

definition encode_null :: "encoder \<Rightarrow> encoder" where
  "encode_null e = push TAG_NULL e"

definition encode_bool :: "bool \<Rightarrow> encoder \<Rightarrow> encoder" where
  "encode_bool v e = push (if v then TAG_TRUE else TAG_FALSE) e"

definition encode_uint :: "u64 \<Rightarrow> encoder \<Rightarrow> encoder" where
  "encode_uint v e =
     (if v \<le> ucast FIXINT_MAX then push (ucast v) e
      else if v \<le> 0xFF then push (ucast v) (push TAG_UINT8 e)
      else if v \<le> 0xFFFF then extend_from_slice (to_le_bytes (ucast v :: u16)) (push TAG_UINT16 e)
      else if v \<le> 0xFFFFFFFF then
        extend_from_slice (to_le_bytes (ucast v :: u32)) (push TAG_UINT32 e)
      else extend_from_slice (to_le_bytes v) (push TAG_UINT64 e))"

definition encode_uint128 :: "u128 \<Rightarrow> encoder \<Rightarrow> encoder" where
  "encode_uint128 v e =
     (if v \<le> 0xFFFFFFFFFFFFFFFF then encode_uint (ucast v) e
      else extend_from_slice (to_le_bytes v) (push TAG_UINT128 e))"

definition encode_int :: "u64 \<Rightarrow> encoder \<Rightarrow> encoder" where
  "encode_int v e =
     (if 0 \<le> sint v then encode_uint v e
      else if - uint NEG_FIXINT_COUNT \<le> sint v then push (NEG_FIXINT_BASE + ucast (- v - 1)) e
      else if - (2 ^ 7) \<le> sint v then push (ucast v) (push TAG_INT8 e)
      else if - (2 ^ 15) \<le> sint v then
        extend_from_slice (to_le_bytes (ucast v :: u16)) (push TAG_INT16 e)
      else if - (2 ^ 31) \<le> sint v then
        extend_from_slice (to_le_bytes (ucast v :: u32)) (push TAG_INT32 e)
      else extend_from_slice (to_le_bytes v) (push TAG_INT64 e))"

definition encode_f32 :: "u32 \<Rightarrow> encoder \<Rightarrow> encoder" where
  "encode_f32 v e = extend_from_slice (to_le_bytes v) (push TAG_FLOAT32 e)"

definition encode_f64 :: "u64 \<Rightarrow> encoder \<Rightarrow> encoder" where
  "encode_f64 v e = extend_from_slice (to_le_bytes v) (push TAG_FLOAT64 e)"

definition encode_str :: "bytes \<Rightarrow> encoder \<Rightarrow> (encode_error + unit) \<times> encoder" where
  "encode_str s e =
     (let len = length s in
      if len \<le> unat FIXSTR_MAX_LEN then
        (Inr (), extend_from_slice s (push (FIXSTR_BASE + of_nat len) e))
      else if len \<le> 0xFF then
        (Inr (), extend_from_slice s (push (of_nat len) (push TAG_STR8 e)))
      else if len \<le> 0xFFFF then
        (Inr (), extend_from_slice s
           (extend_from_slice (to_le_bytes (of_nat len :: u16)) (push TAG_STR16 e)))
      else if len \<le> 0xFFFFFFFF then
        (Inr (), extend_from_slice s
           (extend_from_slice (to_le_bytes (of_nat len :: u32)) (push TAG_STR32 e)))
      else (Inl (StringTooLong len), e))"

definition encode_binary :: "bytes \<Rightarrow> encoder \<Rightarrow> (encode_error + unit) \<times> encoder" where
  "encode_binary data e =
     (let len = length data in
      if len \<le> unat FIXBIN_MAX_LEN then
        (Inr (), extend_from_slice data (push (FIXBIN_BASE + of_nat len) e))
      else if len \<le> 0xFF then
        (Inr (), extend_from_slice data (push (of_nat len) (push TAG_BIN8 e)))
      else if len \<le> 0xFFFF then
        (Inr (), extend_from_slice data
           (extend_from_slice (to_le_bytes (of_nat len :: u16)) (push TAG_BIN16 e)))
      else if len \<le> 0xFFFFFFFF then
        (Inr (), extend_from_slice data
           (extend_from_slice (to_le_bytes (of_nat len :: u32)) (push TAG_BIN32 e)))
      else (Inl (BinaryTooLong len), e))"

definition encode_array_header :: "nat \<Rightarrow> encoder \<Rightarrow> (encode_error + unit) \<times> encoder" where
  "encode_array_header count e =
     (if count \<le> unat FIXARRAY_MAX_LEN then (Inr (), push (FIXARRAY_BASE + of_nat count) e)
      else if count \<le> 0xFF then (Inr (), push (of_nat count) (push TAG_ARRAY8 e))
      else if count \<le> 0xFFFF then
        (Inr (), extend_from_slice (to_le_bytes (of_nat count :: u16)) (push TAG_ARRAY16 e))
      else if count \<le> 0xFFFFFFFF then
        (Inr (), extend_from_slice (to_le_bytes (of_nat count :: u32)) (push TAG_ARRAY32 e))
      else (Inl (ArrayTooLong count), e))"

definition encode_map_header :: "nat \<Rightarrow> encoder \<Rightarrow> (encode_error + unit) \<times> encoder" where
  "encode_map_header count e =
     (if count \<le> unat FIXMAP_MAX_LEN then (Inr (), push (FIXMAP_BASE + of_nat count) e)
      else if count \<le> 0xFF then (Inr (), push (of_nat count) (push TAG_MAP8 e))
      else if count \<le> 0xFFFF then
        (Inr (), extend_from_slice (to_le_bytes (of_nat count :: u16)) (push TAG_MAP16 e))
      else if count \<le> 0xFFFFFFFF then
        (Inr (), extend_from_slice (to_le_bytes (of_nat count :: u32)) (push TAG_MAP32 e))
      else (Inl (MapTooLong count), e))"

definition encode_timestamp :: "u64 \<Rightarrow> encoder \<Rightarrow> encoder" where
  "encode_timestamp nanos e = extend_from_slice (to_le_bytes nanos) (push TAG_TIMESTAMP e)"

definition encode_uuid :: "bytes \<Rightarrow> encoder \<Rightarrow> encoder" where
  "encode_uuid uuid e = extend_from_slice uuid (push TAG_UUID e)"

section \<open>Values\<close>

function (sequential) encode_value :: "pack_value \<Rightarrow> encoder \<Rightarrow> (encode_error + unit) \<times> encoder"
  and encode_items :: "pack_value list \<Rightarrow> encoder \<Rightarrow> (encode_error + unit) \<times> encoder"
  and encode_pairs :: "(pack_value \<times> pack_value) list \<Rightarrow> encoder \<Rightarrow> (encode_error + unit) \<times> encoder"
where
  "encode_value Null e = (Inr (), encode_null e)"
| "encode_value (Bool v) e = (Inr (), encode_bool v e)"
| "encode_value (UInt8 v) e = (Inr (), encode_uint (ucast v) e)"
| "encode_value (UInt16 v) e = (Inr (), encode_uint (ucast v) e)"
| "encode_value (UInt32 v) e = (Inr (), encode_uint (ucast v) e)"
| "encode_value (UInt64 v) e = (Inr (), encode_uint v e)"
| "encode_value (UInt128 v) e = (Inr (), encode_uint128 v e)"
| "encode_value (Int8 v) e = (Inr (), encode_int (scast v) e)"
| "encode_value (Int16 v) e = (Inr (), encode_int (scast v) e)"
| "encode_value (Int32 v) e = (Inr (), encode_int (scast v) e)"
| "encode_value (Int64 v) e = (Inr (), encode_int v e)"
| "encode_value (Float32 v) e = (Inr (), encode_f32 v e)"
| "encode_value (Float64 v) e = (Inr (), encode_f64 v e)"
| "encode_value (Timestamp nanos) e = (Inr (), encode_timestamp nanos e)"
| "encode_value (Uuid uuid) e = (Inr (), encode_uuid uuid e)"
| "encode_value (String s) e = encode_str s e"
| "encode_value (Binary b) e = encode_binary b e"
| "encode_value (Array items) e =
     sbind (encode_array_header (length items) e) (\<lambda>_ e. encode_items items e)"
| "encode_value (Map pairs) e =
     sbind (encode_map_header (length pairs) e) (\<lambda>_ e. encode_pairs pairs e)"
| "encode_value (Extension type_id data) e =
     (Inr (), extend_from_slice data
        (encode_uint (of_nat (length data)) (push type_id (push TAG_EXT e))))"
| "encode_items [] e = (Inr (), e)"
| "encode_items (item # items) e = sbind (encode_value item e) (\<lambda>_ e. encode_items items e)"
| "encode_pairs [] e = (Inr (), e)"
| "encode_pairs ((k, v) # pairs) e =
     sbind (encode_value k e) (\<lambda>_ e. sbind (encode_value v e) (\<lambda>_ e. encode_pairs pairs e))"
  by pat_completeness auto
termination
  by (relation "measure (case_sum (\<lambda>(v, e). size v)
        (case_sum (\<lambda>(vs, e). size_list size vs) (\<lambda>(ps, e). size_list (size_prod size size) ps)))")
    auto

definition encode :: "pack_value \<Rightarrow> encode_error + bytes" where
  "encode v =
     (case encode_value v encoder_new of
        (Inl err, _) \<Rightarrow> Inl err
      | (Inr _, e) \<Rightarrow> Inr (into_bytes e))"

section \<open>The wire format\<close>

text \<open>
  The bytes of a value as a function of the value alone. \<open>len_prefix\<close> is the length
  header that strings, blobs, arrays and maps share, \<open>encodable\<close> the size limit of that
  header. The encoder methods append exactly these bytes.
\<close>

definition len_prefix :: "u8 \<Rightarrow> u8 \<Rightarrow> u8 \<Rightarrow> u8 \<Rightarrow> nat \<Rightarrow> bytes" where
  "len_prefix fix t8 t16 t32 n =
     (if n \<le> 11 then [fix + of_nat n]
      else if n \<le> 0xFF then [t8, of_nat n]
      else if n \<le> 0xFFFF then t16 # to_le_bytes (of_nat n :: u16)
      else t32 # to_le_bytes (of_nat n :: u32))"

definition wire_uint :: "u64 \<Rightarrow> bytes" where
  "wire_uint v =
     (if v \<le> 0x7F then [ucast v]
      else if v \<le> 0xFF then [TAG_UINT8, ucast v]
      else if v \<le> 0xFFFF then TAG_UINT16 # to_le_bytes (ucast v :: u16)
      else if v \<le> 0xFFFFFFFF then TAG_UINT32 # to_le_bytes (ucast v :: u32)
      else TAG_UINT64 # to_le_bytes v)"

definition wire_uint128 :: "u128 \<Rightarrow> bytes" where
  "wire_uint128 v =
     (if v \<le> 0xFFFFFFFFFFFFFFFF then wire_uint (ucast v) else TAG_UINT128 # to_le_bytes v)"

definition wire_int :: "u64 \<Rightarrow> bytes" where
  "wire_int v =
     (if 0 \<le> sint v then wire_uint v
      else if - 12 \<le> sint v then [0x90 + ucast (- v - 1)]
      else if - (2 ^ 7) \<le> sint v then [TAG_INT8, ucast v]
      else if - (2 ^ 15) \<le> sint v then TAG_INT16 # to_le_bytes (ucast v :: u16)
      else if - (2 ^ 31) \<le> sint v then TAG_INT32 # to_le_bytes (ucast v :: u32)
      else TAG_INT64 # to_le_bytes v)"

fun wire :: "pack_value \<Rightarrow> bytes" where
  "wire Null = [TAG_NULL]"
| "wire (Bool b) = [if b then TAG_TRUE else TAG_FALSE]"
| "wire (UInt8 v) = wire_uint (ucast v)"
| "wire (UInt16 v) = wire_uint (ucast v)"
| "wire (UInt32 v) = wire_uint (ucast v)"
| "wire (UInt64 v) = wire_uint v"
| "wire (UInt128 v) = wire_uint128 v"
| "wire (Int8 v) = wire_int (scast v)"
| "wire (Int16 v) = wire_int (scast v)"
| "wire (Int32 v) = wire_int (scast v)"
| "wire (Int64 v) = wire_int v"
| "wire (Float32 v) = TAG_FLOAT32 # to_le_bytes v"
| "wire (Float64 v) = TAG_FLOAT64 # to_le_bytes v"
| "wire (Timestamp v) = TAG_TIMESTAMP # to_le_bytes v"
| "wire (Uuid u) = TAG_UUID # u"
| "wire (String s) = len_prefix FIXSTR_BASE TAG_STR8 TAG_STR16 TAG_STR32 (length s) @ s"
| "wire (Binary b) = len_prefix FIXBIN_BASE TAG_BIN8 TAG_BIN16 TAG_BIN32 (length b) @ b"
| "wire (Array vs) =
     len_prefix FIXARRAY_BASE TAG_ARRAY8 TAG_ARRAY16 TAG_ARRAY32 (length vs)
       @ concat (map wire vs)"
| "wire (Map ps) =
     len_prefix FIXMAP_BASE TAG_MAP8 TAG_MAP16 TAG_MAP32 (length ps)
       @ concat (map (\<lambda>(k, v). wire k @ wire v) ps)"
| "wire (Extension t d) = TAG_EXT # t # wire_uint (of_nat (length d)) @ d"

fun encodable :: "pack_value \<Rightarrow> bool" where
  "encodable (String s) = (length s \<le> 0xFFFFFFFF)"
| "encodable (Binary b) = (length b \<le> 0xFFFFFFFF)"
| "encodable (Array vs) = (length vs \<le> 0xFFFFFFFF \<and> list_all encodable vs)"
| "encodable (Map ps) =
     (length ps \<le> 0xFFFFFFFF \<and> list_all (\<lambda>(k, v). encodable k \<and> encodable v) ps)"
| "encodable _ = True"

section \<open>The encoder appends the wire format\<close>

lemmas encoder_defs = push_def extend_from_slice_def encoder_new_def

lemma encode_uint_appends: "encode_uint v e = e\<lparr>buf := buf e @ wire_uint v\<rparr>"
  by (simp add: wire_uint_def encode_uint_def encoder_defs FIXINT_MAX_def)

lemma encode_uint128_appends: "encode_uint128 v e = e\<lparr>buf := buf e @ wire_uint128 v\<rparr>"
  by (simp add: wire_uint128_def encode_uint128_def encode_uint_appends encoder_defs)

lemma encode_int_appends: "encode_int v e = e\<lparr>buf := buf e @ wire_int v\<rparr>"
  by (simp add: wire_int_def encode_int_def encode_uint_appends encoder_defs
      NEG_FIXINT_COUNT_def NEG_FIXINT_BASE_def)

lemmas encode_scalar_appends = encode_uint_appends encode_uint128_appends encode_int_appends
  encode_null_def encode_bool_def encode_f32_def encode_f64_def encode_timestamp_def
  encode_uuid_def encoder_defs

lemma encode_str_appends:
  "length s \<le> 0xFFFFFFFF \<Longrightarrow>
   encode_str s e = (Inr (), e\<lparr>buf := buf e @ wire (String s)\<rparr>)"
  by (simp add: encode_str_def len_prefix_def FIXSTR_MAX_LEN_def encoder_defs)

lemma encode_binary_appends:
  "length s \<le> 0xFFFFFFFF \<Longrightarrow>
   encode_binary s e = (Inr (), e\<lparr>buf := buf e @ wire (Binary s)\<rparr>)"
  by (simp add: encode_binary_def len_prefix_def FIXBIN_MAX_LEN_def encoder_defs)

lemma encode_array_header_appends:
  "n \<le> 0xFFFFFFFF \<Longrightarrow> encode_array_header n e =
     (Inr (), e\<lparr>buf := buf e @ len_prefix FIXARRAY_BASE TAG_ARRAY8 TAG_ARRAY16 TAG_ARRAY32 n\<rparr>)"
  by (simp add: encode_array_header_def len_prefix_def FIXARRAY_MAX_LEN_def encoder_defs)

lemma encode_map_header_appends:
  "n \<le> 0xFFFFFFFF \<Longrightarrow> encode_map_header n e =
     (Inr (), e\<lparr>buf := buf e @ len_prefix FIXMAP_BASE TAG_MAP8 TAG_MAP16 TAG_MAP32 n\<rparr>)"
  by (simp add: encode_map_header_def len_prefix_def FIXMAP_MAX_LEN_def encoder_defs)

lemma encode_appends:
  shows "encodable v \<Longrightarrow> encode_value v e = (Inr (), e\<lparr>buf := buf e @ wire v\<rparr>)"
    and "list_all encodable vs \<Longrightarrow>
      encode_items vs e = (Inr (), e\<lparr>buf := buf e @ concat (map wire vs)\<rparr>)"
    and "list_all (\<lambda>(k, v). encodable k \<and> encodable v) ps \<Longrightarrow>
      encode_pairs ps e =
        (Inr (), e\<lparr>buf := buf e @ concat (map (\<lambda>(k, v). wire k @ wire v) ps)\<rparr>)"
proof (induction v e and vs e and ps e rule: encode_value_encode_items_encode_pairs.induct)
  case (18 items e)
  then show ?case by (simp add: encode_array_header_appends)
next
  case (19 pairs e)
  then show ?case by (simp add: encode_map_header_appends)
qed (simp_all add: encode_scalar_appends encode_str_appends encode_binary_appends del: wire.simps,
  simp_all add: encoder_defs encode_uint_appends)

lemma encode_fails:
  shows "\<not> encodable v \<Longrightarrow> \<exists>err e'. encode_value v e = (Inl err, e')"
    and "\<not> list_all encodable vs \<Longrightarrow> \<exists>err e'. encode_items vs e = (Inl err, e')"
    and "\<not> list_all (\<lambda>(k, v). encodable k \<and> encodable v) ps \<Longrightarrow>
      \<exists>err e'. encode_pairs ps e = (Inl err, e')"
proof (induction v e and vs e and ps e rule: encode_value_encode_items_encode_pairs.induct)
  case (18 items e)
  then show ?case
    by (cases "length items \<le> 0xFFFFFFFF")
      (auto simp: encode_array_header_appends encode_array_header_def FIXARRAY_MAX_LEN_def)
next
  case (19 pairs e)
  then show ?case
    by (cases "length pairs \<le> 0xFFFFFFFF")
      (auto simp: encode_map_header_appends encode_map_header_def FIXMAP_MAX_LEN_def)
next
  case (22 item items e)
  then show ?case
    by (cases "encodable item") (auto simp: encode_appends)
next
  case (24 k v pairs e)
  then show ?case
    by (cases "encodable k"; cases "encodable v")
      (auto simp: encode_appends, metis sbind.simps(1))
qed (auto simp: encode_str_def encode_binary_def FIXSTR_MAX_LEN_def FIXBIN_MAX_LEN_def)

lemma encode_eq: "encodable v \<Longrightarrow> encode v = Inr (wire v)"
  by (simp add: encode_def encode_appends encoder_new_def into_bytes_def)

lemma encode_Inr_iff: "encode v = Inr bs \<longleftrightarrow> encodable v \<and> bs = wire v"
proof (cases "encodable v")
  case True
  then show ?thesis by (auto simp: encode_eq)
next
  case False
  then obtain err e' where "encode_value v encoder_new = (Inl err, e')"
    using encode_fails(1) by blast
  with False show ?thesis by (simp add: encode_def)
qed

end
