(* ===== verification/Pack_Decode.thy ===== *)
theory Pack_Decode
  imports Pack_Encode
begin

text \<open>
  The SmartPack decoder (\<open>smartpack/src/decode.rs\<close>). The decoder is a position and a
  container depth in a fixed byte slice; every method returns its result with the decoder,
  on the error path too. \<open>decode_value\<close> calls itself through the array and map loops; the
  depth limit bounds that recursion, so the model recurses on the number of container levels
  that are left, and \<open>decode_value_unfold\<close> shows that it satisfies the recursive equation of
  the source.
\<close>

section \<open>The decoder\<close>

datatype decode_error =
    UnexpectedEof
  | InvalidTag u8
  | InvalidUtf8
  | DepthLimitExceeded
  | TrailingData nat

definition MAX_DEPTH :: nat where
  "MAX_DEPTH = 128"

record decoder =
  data :: bytes
  pos :: nat
  depth :: nat

type_synonym 'a dec_result = "(decode_error + 'a) \<times> decoder"

definition decoder_new :: "bytes \<Rightarrow> decoder" where
  "decoder_new bs = \<lparr>data = bs, pos = 0, depth = 0\<rparr>"

definition remaining :: "decoder \<Rightarrow> nat" where
  "remaining d = length (data d) - pos d"

definition dec_is_empty :: "decoder \<Rightarrow> bool" where
  "dec_is_empty d \<longleftrightarrow> length (data d) \<le> pos d"

definition read_byte :: "decoder \<Rightarrow> u8 dec_result" where
  "read_byte d =
     (if length (data d) \<le> pos d then (Inl UnexpectedEof, d)
      else (Inr (data d ! pos d), d\<lparr>pos := pos d + 1\<rparr>))"

definition read_bytes :: "nat \<Rightarrow> decoder \<Rightarrow> bytes dec_result" where
  "read_bytes n d =
     (if length (data d) < pos d + n then (Inl UnexpectedEof, d)
      else (Inr (subslice (pos d) n (data d)), d\<lparr>pos := pos d + n\<rparr>))"

definition read_u8 :: "decoder \<Rightarrow> u8 dec_result" where
  "read_u8 d = read_byte d"

definition read_u16_le :: "decoder \<Rightarrow> u16 dec_result" where
  "read_u16_le d = sbind (read_bytes 2 d) (\<lambda>bs d. (Inr (from_le_bytes bs), d))"

definition read_u32_le :: "decoder \<Rightarrow> u32 dec_result" where
  "read_u32_le d = sbind (read_bytes 4 d) (\<lambda>bs d. (Inr (from_le_bytes bs), d))"

definition read_u64_le :: "decoder \<Rightarrow> u64 dec_result" where
  "read_u64_le d = sbind (read_bytes 8 d) (\<lambda>bs d. (Inr (from_le_bytes bs), d))"

definition read_u128_le :: "decoder \<Rightarrow> u128 dec_result" where
  "read_u128_le d = sbind (read_bytes 16 d) (\<lambda>bs d. (Inr (from_le_bytes bs), d))"

definition push_depth :: "decoder \<Rightarrow> unit dec_result" where
  "push_depth d =
     (let d = d\<lparr>depth := depth d + 1\<rparr> in
      if MAX_DEPTH < depth d then (Inl DepthLimitExceeded, d) else (Inr (), d))"

definition pop_depth :: "decoder \<Rightarrow> decoder" where
  "pop_depth d = d\<lparr>depth := depth d - 1\<rparr>"

section \<open>Zero-copy accessors\<close>

definition from_utf8 :: "bytes \<Rightarrow> decode_error + bytes" where
  "from_utf8 bs = (if utf8_valid bs then Inr bs else Inl InvalidUtf8)"

definition str_ref_len :: "u8 \<Rightarrow> decoder \<Rightarrow> nat dec_result" where
  "str_ref_len tag d =
     (if FIXSTR_BASE \<le> tag \<and> tag \<le> FIXSTR_BASE + FIXSTR_MAX_LEN
      then (Inr (unat (tag - FIXSTR_BASE)), d)
      else if tag = TAG_STR8 then sbind (read_u8 d) (\<lambda>n d. (Inr (unat n), d))
      else if tag = TAG_STR16 then sbind (read_u16_le d) (\<lambda>n d. (Inr (unat n), d))
      else if tag = TAG_STR32 then sbind (read_u32_le d) (\<lambda>n d. (Inr (unat n), d))
      else (Inl (InvalidTag tag), d))"

definition decode_str_ref :: "decoder \<Rightarrow> bytes dec_result" where
  "decode_str_ref d =
     sbind (read_byte d) (\<lambda>tag d.
     sbind (str_ref_len tag d) (\<lambda>len d.
     sbind (read_bytes len d) (\<lambda>bs d. (from_utf8 bs, d))))"

definition bin_ref_len :: "u8 \<Rightarrow> decoder \<Rightarrow> nat dec_result" where
  "bin_ref_len tag d =
     (if FIXBIN_BASE \<le> tag \<and> tag \<le> FIXBIN_BASE + FIXBIN_MAX_LEN
      then (Inr (unat (tag - FIXBIN_BASE)), d)
      else if tag = TAG_BIN8 then sbind (read_u8 d) (\<lambda>n d. (Inr (unat n), d))
      else if tag = TAG_BIN16 then sbind (read_u16_le d) (\<lambda>n d. (Inr (unat n), d))
      else if tag = TAG_BIN32 then sbind (read_u32_le d) (\<lambda>n d. (Inr (unat n), d))
      else (Inl (InvalidTag tag), d))"

definition decode_bin_ref :: "decoder \<Rightarrow> bytes dec_result" where
  "decode_bin_ref d =
     sbind (read_byte d) (\<lambda>tag d.
     sbind (bin_ref_len tag d) (\<lambda>len d.
     read_bytes len d))"

section \<open>Full value decoding\<close>

text \<open>The body of a string or a blob, once its length is known.\<close>

definition read_string :: "nat \<Rightarrow> decoder \<Rightarrow> pack_value dec_result" where
  "read_string len d =
     sbind (read_bytes len d) (\<lambda>bs d.
     sbind (from_utf8 bs, d) (\<lambda>s d. (Inr (String s), d)))"

definition read_binary :: "nat \<Rightarrow> decoder \<Rightarrow> pack_value dec_result" where
  "read_binary len d = sbind (read_bytes len d) (\<lambda>bs d. (Inr (Binary bs), d))"

text \<open>The two loops, over the decoding function they call for each element.\<close>

primrec decode_items ::
  "(decoder \<Rightarrow> pack_value dec_result) \<Rightarrow> nat \<Rightarrow> pack_value list \<Rightarrow> decoder \<Rightarrow> pack_value list dec_result" where
  "decode_items dv 0 items d = (Inr items, d)"
| "decode_items dv (Suc n) items d = sbind (dv d) (\<lambda>v d. decode_items dv n (items @ [v]) d)"

definition decode_array_values ::
  "(decoder \<Rightarrow> pack_value dec_result) \<Rightarrow> nat \<Rightarrow> decoder \<Rightarrow> pack_value dec_result" where
  "decode_array_values dv count d =
     sbind (push_depth d) (\<lambda>_ d.
     sbind (decode_items dv count [] d) (\<lambda>items d.
     (Inr (Array items), pop_depth d)))"

primrec decode_pairs ::
  "(decoder \<Rightarrow> pack_value dec_result) \<Rightarrow> nat \<Rightarrow> (pack_value \<times> pack_value) list \<Rightarrow> decoder
     \<Rightarrow> (pack_value \<times> pack_value) list dec_result" where
  "decode_pairs dv 0 pairs d = (Inr pairs, d)"
| "decode_pairs dv (Suc n) pairs d =
     sbind (dv d) (\<lambda>key d.
     sbind (dv d) (\<lambda>val d.
     decode_pairs dv n (pairs @ [(key, val)]) d))"

definition decode_map_values ::
  "(decoder \<Rightarrow> pack_value dec_result) \<Rightarrow> nat \<Rightarrow> decoder \<Rightarrow> pack_value dec_result" where
  "decode_map_values dv count d =
     sbind (push_depth d) (\<lambda>_ d.
     sbind (decode_pairs dv count [] d) (\<lambda>pairs d.
     (Inr (Map pairs), pop_depth d)))"

text \<open>The dispatch on the tag byte, in the order of the match arms.\<close>

definition decode_tag :: "(decoder \<Rightarrow> pack_value dec_result) \<Rightarrow> u8 \<Rightarrow> decoder \<Rightarrow> pack_value dec_result" where
  "decode_tag dv tag d =
     (if tag \<le> FIXINT_MAX then (Inr (UInt8 tag), d)
      else if tag = TAG_UINT8 then sbind (read_u8 d) (\<lambda>v d. (Inr (UInt8 v), d))
      else if tag = TAG_UINT16 then sbind (read_u16_le d) (\<lambda>v d. (Inr (UInt16 v), d))
      else if tag = TAG_UINT32 then sbind (read_u32_le d) (\<lambda>v d. (Inr (UInt32 v), d))
      else if tag = TAG_UINT64 then sbind (read_u64_le d) (\<lambda>v d. (Inr (UInt64 v), d))
      else if tag = TAG_UINT128 then sbind (read_u128_le d) (\<lambda>v d. (Inr (UInt128 v), d))
      else if NEG_FIXINT_BASE \<le> tag \<and> tag \<le> NEG_FIXINT_MAX then
        (Inr (Int8 (- (tag - NEG_FIXINT_BASE) - 1)), d)
      else if tag = TAG_INT8 then sbind (read_u8 d) (\<lambda>v d. (Inr (Int8 v), d))
      else if tag = TAG_INT16 then sbind (read_u16_le d) (\<lambda>v d. (Inr (Int16 v), d))
      else if tag = TAG_INT32 then sbind (read_u32_le d) (\<lambda>v d. (Inr (Int32 v), d))
      else if tag = TAG_INT64 then sbind (read_u64_le d) (\<lambda>v d. (Inr (Int64 v), d))
      else if tag = TAG_FLOAT32 then
        sbind (read_bytes 4 d) (\<lambda>bs d. (Inr (Float32 (from_le_bytes bs)), d))
      else if tag = TAG_FLOAT64 then
        sbind (read_bytes 8 d) (\<lambda>bs d. (Inr (Float64 (from_le_bytes bs)), d))
      else if FIXSTR_BASE \<le> tag \<and> tag \<le> FIXSTR_BASE + FIXSTR_MAX_LEN then
        read_string (unat (tag - FIXSTR_BASE)) d
      else if tag = TAG_STR8 then sbind (read_u8 d) (\<lambda>n d. read_string (unat n) d)
      else if tag = TAG_STR16 then sbind (read_u16_le d) (\<lambda>n d. read_string (unat n) d)
      else if tag = TAG_STR32 then sbind (read_u32_le d) (\<lambda>n d. read_string (unat n) d)
      else if FIXBIN_BASE \<le> tag \<and> tag \<le> FIXBIN_BASE + FIXBIN_MAX_LEN then
        read_binary (unat (tag - FIXBIN_BASE)) d
      else if tag = TAG_BIN8 then sbind (read_u8 d) (\<lambda>n d. read_binary (unat n) d)
      else if tag = TAG_BIN16 then sbind (read_u16_le d) (\<lambda>n d. read_binary (unat n) d)
      else if tag = TAG_BIN32 then sbind (read_u32_le d) (\<lambda>n d. read_binary (unat n) d)
      else if FIXARRAY_BASE \<le> tag \<and> tag \<le> FIXARRAY_BASE + FIXARRAY_MAX_LEN then
        decode_array_values dv (unat (tag - FIXARRAY_BASE)) d
      else if tag = TAG_ARRAY8 then
        sbind (read_u8 d) (\<lambda>n d. decode_array_values dv (unat n) d)
      else if tag = TAG_ARRAY16 then
        sbind (read_u16_le d) (\<lambda>n d. decode_array_values dv (unat n) d)
      else if tag = TAG_ARRAY32 then
        sbind (read_u32_le d) (\<lambda>n d. decode_array_values dv (unat n) d)
      else if FIXMAP_BASE \<le> tag \<and> tag \<le> FIXMAP_BASE + FIXMAP_MAX_LEN then
        decode_map_values dv (unat (tag - FIXMAP_BASE)) d
      else if tag = TAG_MAP8 then sbind (read_u8 d) (\<lambda>n d. decode_map_values dv (unat n) d)
      else if tag = TAG_MAP16 then sbind (read_u16_le d) (\<lambda>n d. decode_map_values dv (unat n) d)
      else if tag = TAG_MAP32 then sbind (read_u32_le d) (\<lambda>n d. decode_map_values dv (unat n) d)
      else if tag = TAG_NULL then (Inr Null, d)
      else if tag = TAG_FALSE then (Inr (Bool False), d)
      else if tag = TAG_TRUE then (Inr (Bool True), d)
      else if tag = TAG_TIMESTAMP then sbind (read_u64_le d) (\<lambda>v d. (Inr (Timestamp v), d))
      else if tag = TAG_UUID then sbind (read_bytes 16 d) (\<lambda>bs d. (Inr (Uuid bs), d))
      else (Inl (InvalidTag tag), d))"

definition decode_value_body :: "(decoder \<Rightarrow> pack_value dec_result) \<Rightarrow> decoder \<Rightarrow> pack_value dec_result" where
  "decode_value_body dv d = sbind (read_byte d) (\<lambda>tag d. decode_tag dv tag d)"

primrec decode_value_lvl :: "nat \<Rightarrow> decoder \<Rightarrow> pack_value dec_result" where
  "decode_value_lvl 0 d = decode_value_body (\<lambda>d. (Inl DepthLimitExceeded, d)) d"
| "decode_value_lvl (Suc k) d = decode_value_body (decode_value_lvl k) d"

definition decode_value :: "decoder \<Rightarrow> pack_value dec_result" where
  "decode_value d = decode_value_lvl (MAX_DEPTH - depth d) d"

definition decode :: "bytes \<Rightarrow> decode_error + pack_value" where
  "decode bs = fst (decode_value (decoder_new bs))"

end
