(* ===== verification/Pack_Roundtrip.thy ===== *)
theory Pack_Roundtrip
  imports Pack_Decode
begin

text \<open>
  Correctness of the SmartPack codec: what a successful read does to the decoder, the
  recursive equation of \<open>decode_value\<close>, and decoding of every encoded value.
\<close>

section \<open>What a successful read does\<close>

text \<open>
  A successful method keeps the slice and the depth, moves forward and stays inside the
  slice. \<open>advances f\<close> says so of a reader, and composes along \<open>sbind\<close>.
\<close>

definition advance :: "decoder \<Rightarrow> decoder \<Rightarrow> bool" where
  "advance d d' \<longleftrightarrow> data d' = data d \<and> depth d' = depth d \<and> pos d \<le> pos d'
     \<and> (pos d \<le> length (data d) \<longrightarrow> pos d' \<le> length (data d))"

definition advances :: "(decoder \<Rightarrow> 'a dec_result) \<Rightarrow> bool" where
  "advances f \<longleftrightarrow> (\<forall>d x d'. f d = (Inr x, d') \<longrightarrow> advance d d')"

named_theorems adv_intros \<open>readers that advance\<close>

lemma advance_refl [simp]: "advance d d"
  by (simp add: advance_def)

lemma advance_trans: "advance a b \<Longrightarrow> advance b c \<Longrightarrow> advance a c"
  by (auto simp: advance_def)

lemma advancesD: "advances f \<Longrightarrow> f d = (Inr x, d') \<Longrightarrow> advance d d'"
  by (auto simp: advances_def)

lemma advances_result [adv_intros]: "advances (\<lambda>d. (r, d))"
  by (auto simp: advances_def)

lemma advances_if [adv_intros]:
  "advances f \<Longrightarrow> advances g \<Longrightarrow> advances (\<lambda>d. if b then f d else g d)"
  by (auto simp: advances_def)

lemma advances_sbind [adv_intros]:
  "advances f \<Longrightarrow> (\<And>x. advances (g x)) \<Longrightarrow> advances (\<lambda>d. sbind (f d) g)"
  unfolding advances_def sbind_Inr_iff by (meson advance_trans)

lemma advances_read_bytes [adv_intros]: "advances (read_bytes n)"
  by (auto simp: advances_def advance_def read_bytes_def)

lemma advances_read_byte [adv_intros]: "advances read_byte"
  by (auto simp: advances_def advance_def read_byte_def split: if_splits)

lemma advances_read_u8 [adv_intros]: "advances read_u8"
  using advances_read_byte by (simp add: advances_def read_u8_def)

lemma advances_read_u16 [adv_intros]: "advances read_u16_le"
  unfolding read_u16_le_def by (intro adv_intros)

lemma advances_read_u32 [adv_intros]: "advances read_u32_le"
  unfolding read_u32_le_def by (intro adv_intros)

lemma advances_read_u64 [adv_intros]: "advances read_u64_le"
  unfolding read_u64_le_def by (intro adv_intros)

lemma advances_read_u128 [adv_intros]: "advances read_u128_le"
  unfolding read_u128_le_def by (intro adv_intros)

lemma advances_read_string [adv_intros]: "advances (read_string n)"
  unfolding read_string_def by (intro adv_intros)

lemma advances_read_binary [adv_intros]: "advances (read_binary n)"
  unfolding read_binary_def by (intro adv_intros)

lemma advances_items: "advances dv \<Longrightarrow> advances (decode_items dv n items)"
proof (induction n arbitrary: items)
  case 0
  then show ?case by (auto simp: advances_def)
next
  case (Suc n)
  then have "advances (\<lambda>d. sbind (dv d) (\<lambda>v d. decode_items dv n (items @ [v]) d))"
    by (intro advances_sbind) auto
  then show ?case by (simp add: advances_def)
qed

lemma advances_pairs: "advances dv \<Longrightarrow> advances (decode_pairs dv n pairs)"
proof (induction n arbitrary: pairs)
  case 0
  then show ?case by (auto simp: advances_def)
next
  case (Suc n)
  then have "advances (\<lambda>d. sbind (dv d) (\<lambda>k d. sbind (dv d)
      (\<lambda>v d. decode_pairs dv n (pairs @ [(k, v)]) d)))"
    by (intro advances_sbind) auto
  then show ?case by (simp add: advances_def)
qed

text \<open>A container method enters one level, runs its loop and leaves the level again.\<close>

lemma container_advance:
  assumes "advance (d\<lparr>depth := Suc (depth d)\<rparr>) d'"
  shows "advance d (pop_depth d')"
  using assms by (auto simp: advance_def pop_depth_def)

lemma advances_array_values [adv_intros]:
  assumes "advances dv" shows "advances (decode_array_values dv n)"
  unfolding advances_def decode_array_values_def
  by (auto simp: sbind_Inr_iff push_depth_def Let_def split: if_splits
      intro!: container_advance dest: advancesD [OF advances_items [OF assms]])

lemma advances_map_values [adv_intros]:
  assumes "advances dv" shows "advances (decode_map_values dv n)"
  unfolding advances_def decode_map_values_def
  by (auto simp: sbind_Inr_iff push_depth_def Let_def split: if_splits
      intro!: container_advance dest: advancesD [OF advances_pairs [OF assms]])

lemma advances_tag [adv_intros]: "advances dv \<Longrightarrow> advances (decode_tag dv tag)"
  unfolding decode_tag_def by (intro adv_intros)

lemma advances_body [adv_intros]: "advances dv \<Longrightarrow> advances (decode_value_body dv)"
  unfolding decode_value_body_def by (intro adv_intros)

lemma advances_lvl: "advances (decode_value_lvl k)"
proof (induction k)
  case 0
  have "advances (decode_value_body (\<lambda>d. (Inl DepthLimitExceeded, d)))"
    by (intro adv_intros)
  then show ?case by (simp add: advances_def)
next
  case (Suc k)
  then have "advances (decode_value_body (decode_value_lvl k))"
    by (rule advances_body)
  then show ?case by (simp add: advances_def)
qed

lemma advances_decode_value: "advances decode_value"
  using advances_lvl by (simp add: advances_def decode_value_def)

section \<open>The recursive equation of the source\<close>

definition agree_at :: "nat \<Rightarrow> (decoder \<Rightarrow> 'a) \<Rightarrow> (decoder \<Rightarrow> 'a) \<Rightarrow> bool" where
  "agree_at k f g \<longleftrightarrow> (\<forall>d. depth d = k \<longrightarrow> f d = g d)"

lemma agree_sbind:
  assumes "agree_at k f f'" "advances f" "\<And>x. agree_at k (g x) (g' x)"
  shows "agree_at k (\<lambda>d. sbind (f d) g) (\<lambda>d. sbind (f' d) g')"
proof (unfold agree_at_def, intro allI impI)
  fix d :: decoder assume k: "depth d = k"
  have "g x e = g' x e" if "f d = (Inr x, e)" for x e
  proof -
    from that assms(2) have "depth e = k"
      using k by (auto dest: advancesD simp: advance_def)
    with assms(3) show ?thesis by (simp add: agree_at_def)
  qed
  then have "sbind (f d) g = sbind (f d) g'" by (rule sbind_cong_Inr)
  with assms(1) k show "sbind (f d) g = sbind (f' d) g'" by (simp add: agree_at_def)
qed

lemma agree_refl [simp]: "agree_at k f f"
  by (simp add: agree_at_def)

lemma agree_if:
  "agree_at k f f' \<Longrightarrow> agree_at k g g' \<Longrightarrow>
   agree_at k (\<lambda>d. if b then f d else g d) (\<lambda>d. if b then f' d else g' d)"
  by (simp add: agree_at_def)

lemma agree_items:
  "agree_at k f g \<Longrightarrow> advances f \<Longrightarrow> agree_at k (decode_items f n items) (decode_items g n items)"
proof (induction n arbitrary: items)
  case 0
  then show ?case by (simp add: agree_at_def)
next
  case (Suc n)
  then have "agree_at k (\<lambda>d. sbind (f d) (\<lambda>v d. decode_items f n (items @ [v]) d))
      (\<lambda>d. sbind (g d) (\<lambda>v d. decode_items g n (items @ [v]) d))"
    by (intro agree_sbind) auto
  then show ?case by (simp add: agree_at_def)
qed

lemma agree_pairs:
  "agree_at k f g \<Longrightarrow> advances f \<Longrightarrow> agree_at k (decode_pairs f n pairs) (decode_pairs g n pairs)"
proof (induction n arbitrary: pairs)
  case 0
  then show ?case by (simp add: agree_at_def)
next
  case (Suc n)
  then have "agree_at k
      (\<lambda>d. sbind (f d) (\<lambda>x d. sbind (f d) (\<lambda>v d. decode_pairs f n (pairs @ [(x, v)]) d)))
      (\<lambda>d. sbind (g d) (\<lambda>x d. sbind (g d) (\<lambda>v d. decode_pairs g n (pairs @ [(x, v)]) d)))"
    by (intro agree_sbind) auto
  then show ?case by (simp add: agree_at_def)
qed

text \<open>Below the limit a container calls its element decoder one level further in.\<close>

lemma agree_array_values:
  assumes "k < MAX_DEPTH \<Longrightarrow> agree_at (Suc k) f g" "advances f"
  shows "agree_at k (decode_array_values f n) (decode_array_values g n)"
  using assms agree_items [of "Suc k" f g n "[]"]
  by (auto simp: agree_at_def decode_array_values_def push_depth_def Let_def)

lemma agree_map_values:
  assumes "k < MAX_DEPTH \<Longrightarrow> agree_at (Suc k) f g" "advances f"
  shows "agree_at k (decode_map_values f n) (decode_map_values g n)"
  using assms agree_pairs [of "Suc k" f g n "[]"]
  by (auto simp: agree_at_def decode_map_values_def push_depth_def Let_def)

lemma agree_body:
  assumes "k < MAX_DEPTH \<Longrightarrow> agree_at (Suc k) f g" "advances f"
  shows "agree_at k (decode_value_body f) (decode_value_body g)"
  unfolding decode_value_body_def decode_tag_def
  by (intro agree_sbind agree_if agree_refl agree_array_values agree_map_values
      assms adv_intros) simp_all

lemma decode_value_unfold:
  assumes "depth d \<le> MAX_DEPTH"
  shows "decode_value d = decode_value_body decode_value d"
proof (cases "MAX_DEPTH - depth d")
  case 0
  have "agree_at (depth d) (decode_value_body (\<lambda>d. (Inl DepthLimitExceeded, d)))
      (decode_value_body decode_value)"
    using 0 by (intro agree_body) (auto intro: adv_intros)
  with 0 show ?thesis by (simp add: decode_value_def agree_at_def)
next
  case (Suc k)
  then have "MAX_DEPTH - Suc (depth d) = k" by simp
  then have "agree_at (Suc (depth d)) (decode_value_lvl k) decode_value"
    by (simp add: agree_at_def decode_value_def)
  then have "agree_at (depth d) (decode_value_body (decode_value_lvl k))
      (decode_value_body decode_value)"
    by (intro agree_body advances_lvl)
  with Suc show ?thesis by (simp add: decode_value_def agree_at_def)
qed

section \<open>Reading known input\<close>

text \<open>
  \<open>at d bs\<close>: the unread input of \<open>d\<close> starts with \<open>bs\<close>; \<open>skip n d\<close> is \<open>d\<close> after
  \<open>n\<close> more bytes. The rules say what each reader returns at known input.
\<close>

definition at :: "decoder \<Rightarrow> bytes \<Rightarrow> bool" where
  "at d bs \<longleftrightarrow> pos d + length bs \<le> length (data d) \<and> subslice (pos d) (length bs) (data d) = bs"

definition skip :: "nat \<Rightarrow> decoder \<Rightarrow> decoder" where
  "skip n d = d\<lparr>pos := pos d + n\<rparr>"

lemma skip_simps [simp]:
  "skip n (skip m d) = skip (m + n) d" "depth (skip n d) = depth d"
  "skip 0 d = d" "data (skip n d) = data d" "pos (skip n d) = pos d + n"
  by (simp_all add: skip_def add.assoc)

lemma at_appendD1: "at d (bs @ cs) \<Longrightarrow> at d bs"
  by (auto simp: at_def subslice_append)

lemma at_appendD2: "at d (bs @ cs) \<Longrightarrow> at (skip (length bs) d) cs"
  by (auto simp: at_def subslice_append)

lemma at_ConsD: "at d (b # bs) \<Longrightarrow> at (skip (Suc 0) d) bs"
  using at_appendD2 [of d "[b]" bs] by simp

lemma at_whole: "at (decoder_new (bs @ cs)) bs"
  by (simp add: at_def decoder_new_def subslice_def)

lemma read_bytes_at: "at d bs \<Longrightarrow> read_bytes (length bs) d = (Inr bs, skip (length bs) d)"
  by (simp add: at_def read_bytes_def skip_def)

lemma read_byte_at: "at d (b # bs) \<Longrightarrow> read_byte d = (Inr b, skip (Suc 0) d)"
  by (auto simp: at_def read_byte_def skip_def subslice_Suc)

lemma read_u8_at: "at d [b] \<Longrightarrow> read_u8 d = (Inr b, skip (Suc 0) d)"
  by (simp add: read_u8_def read_byte_at)

lemma read_u16_at: "at d (to_le_bytes w) \<Longrightarrow> read_u16_le d = (Inr w, skip 2 d)"
  using read_bytes_at [of d "to_le_bytes w"] by (simp add: read_u16_le_def)

lemma read_u32_at: "at d (to_le_bytes w) \<Longrightarrow> read_u32_le d = (Inr w, skip 4 d)"
  using read_bytes_at [of d "to_le_bytes w"] by (simp add: read_u32_le_def)

lemma read_u64_at: "at d (to_le_bytes w) \<Longrightarrow> read_u64_le d = (Inr w, skip 8 d)"
  using read_bytes_at [of d "to_le_bytes w"] by (simp add: read_u64_le_def)

lemma read_u128_at: "at d (to_le_bytes w) \<Longrightarrow> read_u128_le d = (Inr w, skip 16 d)"
  using read_bytes_at [of d "to_le_bytes w"] by (simp add: read_u128_le_def)

lemma read_string_at:
  "at d s \<Longrightarrow> utf8_valid s \<Longrightarrow> read_string (length s) d = (Inr (String s), skip (length s) d)"
  by (simp add: read_string_def read_bytes_at from_utf8_def)

lemma read_binary_at:
  "at d s \<Longrightarrow> read_binary (length s) d = (Inr (Binary s), skip (length s) d)"
  by (simp add: read_binary_def read_bytes_at)

lemma body_at:
  "at d (tag # bs) \<Longrightarrow> decode_value_body dv d = decode_tag dv tag (skip (Suc 0) d)"
  by (simp add: decode_value_body_def read_byte_at)

section \<open>Length headers\<close>

lemma le_11_cases:
  "(n :: nat) \<le> 11 \<Longrightarrow> n \<in> {0, 1, 2, 3, 4, 5, 6, 7, 8, 9, 10, 11}"
  unfolding insert_iff empty_iff by presburger

text \<open>A length header leads to the arm for its kind, with the length that was written.\<close>

definition reads_prefix ::
  "u8 \<Rightarrow> u8 \<Rightarrow> u8 \<Rightarrow> u8 \<Rightarrow> (nat \<Rightarrow> decoder \<Rightarrow> pack_value dec_result) \<Rightarrow>
   (u8 \<Rightarrow> decoder \<Rightarrow> pack_value dec_result) \<Rightarrow> bool" where
  "reads_prefix fix t8 t16 t32 arm tag_fun \<longleftrightarrow>
     (\<forall>n d. n \<le> 11 \<longrightarrow> tag_fun (fix + of_nat n) d = arm n d)
     \<and> (\<forall>d. tag_fun t8 d = sbind (read_u8 d) (\<lambda>n d. arm (unat n) d))
     \<and> (\<forall>d. tag_fun t16 d = sbind (read_u16_le d) (\<lambda>n d. arm (unat n) d))
     \<and> (\<forall>d. tag_fun t32 d = sbind (read_u32_le d) (\<lambda>n d. arm (unat n) d))"

lemma reads_prefixI:
  assumes "\<And>n d. n \<le> 11 \<Longrightarrow> tag_fun (fix + of_nat n) d = arm n d"
    and "\<And>d. tag_fun t8 d = sbind (read_u8 d) (\<lambda>n d. arm (unat n) d)"
    and "\<And>d. tag_fun t16 d = sbind (read_u16_le d) (\<lambda>n d. arm (unat n) d)"
    and "\<And>d. tag_fun t32 d = sbind (read_u32_le d) (\<lambda>n d. arm (unat n) d)"
  shows "reads_prefix fix t8 t16 t32 arm tag_fun"
  using assms by (simp add: reads_prefix_def)

lemma reads_prefix_str:
  "reads_prefix FIXSTR_BASE TAG_STR8 TAG_STR16 TAG_STR32 read_string (decode_tag dv)"
  by (intro reads_prefixI, drule le_11_cases, elim insertE emptyE)
    (simp_all add: decode_tag_def tag_defs split del: if_split)

lemma reads_prefix_bin:
  "reads_prefix FIXBIN_BASE TAG_BIN8 TAG_BIN16 TAG_BIN32 read_binary (decode_tag dv)"
  by (intro reads_prefixI, drule le_11_cases, elim insertE emptyE)
    (simp_all add: decode_tag_def tag_defs split del: if_split)

lemma reads_prefix_array:
  "reads_prefix FIXARRAY_BASE TAG_ARRAY8 TAG_ARRAY16 TAG_ARRAY32
     (decode_array_values dv) (decode_tag dv)"
  by (intro reads_prefixI, drule le_11_cases, elim insertE emptyE)
    (simp_all add: decode_tag_def tag_defs split del: if_split)

lemma reads_prefix_map:
  "reads_prefix FIXMAP_BASE TAG_MAP8 TAG_MAP16 TAG_MAP32
     (decode_map_values dv) (decode_tag dv)"
  by (intro reads_prefixI, drule le_11_cases, elim insertE emptyE)
    (simp_all add: decode_tag_def tag_defs split del: if_split)

lemma body_prefix_at:
  assumes "reads_prefix fix t8 t16 t32 arm (decode_tag dv)"
    and "at d (len_prefix fix t8 t16 t32 n @ bs)" and "n \<le> 0xFFFFFFFF"
  shows "decode_value_body dv d = arm n (skip (length (len_prefix fix t8 t16 t32 n)) d)"
    and "at (skip (length (len_prefix fix t8 t16 t32 n)) d) bs"
proof -
  show "at (skip (length (len_prefix fix t8 t16 t32 n)) d) bs"
    using assms(2) by (rule at_appendD2)
  have p: "at d (len_prefix fix t8 t16 t32 n)" using assms(2) by (rule at_appendD1)
  consider "n \<le> 11" | "11 < n" "n \<le> 0xFF" | "0xFF < n" "n \<le> 0xFFFF" | "0xFFFF < n"
    by linarith
  then show "decode_value_body dv d = arm n (skip (length (len_prefix fix t8 t16 t32 n)) d)"
  proof cases
    case 1
    with p assms(1) show ?thesis by (simp add: len_prefix_def reads_prefix_def body_at)
  next
    case 2
    with p have "at d [t8, of_nat n]" by (simp add: len_prefix_def)
    with 2 assms(1) show ?thesis
      by (simp add: len_prefix_def reads_prefix_def body_at read_u8_at [OF at_ConsD])
  next
    case 3
    with p have "at d (t16 # to_le_bytes (of_nat n :: u16))" by (simp add: len_prefix_def)
    with 3 assms(1) show ?thesis
      by (simp add: len_prefix_def reads_prefix_def body_at read_u16_at [OF at_ConsD]
          numeral_3_eq_3)
  next
    case 4
    with p have "at d (t32 # to_le_bytes (of_nat n :: u32))" by (simp add: len_prefix_def)
    with 4 assms(1,3) show ?thesis
      by (simp add: len_prefix_def reads_prefix_def body_at read_u32_at [OF at_ConsD])
  qed
qed

section \<open>Scalars\<close>

lemma tag_arms:
  "b \<le> 0x7F \<Longrightarrow> decode_tag dv b d = (Inr (UInt8 b), d)"
  "decode_tag dv TAG_UINT8 d = sbind (read_u8 d) (\<lambda>v d. (Inr (UInt8 v), d))"
  "decode_tag dv TAG_UINT16 d = sbind (read_u16_le d) (\<lambda>v d. (Inr (UInt16 v), d))"
  "decode_tag dv TAG_UINT32 d = sbind (read_u32_le d) (\<lambda>v d. (Inr (UInt32 v), d))"
  "decode_tag dv TAG_UINT64 d = sbind (read_u64_le d) (\<lambda>v d. (Inr (UInt64 v), d))"
  "decode_tag dv TAG_UINT128 d = sbind (read_u128_le d) (\<lambda>v d. (Inr (UInt128 v), d))"
  "decode_tag dv TAG_INT8 d = sbind (read_u8 d) (\<lambda>v d. (Inr (Int8 v), d))"
  "decode_tag dv TAG_INT16 d = sbind (read_u16_le d) (\<lambda>v d. (Inr (Int16 v), d))"
  "decode_tag dv TAG_INT32 d = sbind (read_u32_le d) (\<lambda>v d. (Inr (Int32 v), d))"
  "decode_tag dv TAG_INT64 d = sbind (read_u64_le d) (\<lambda>v d. (Inr (Int64 v), d))"
  "decode_tag dv TAG_FLOAT32 d =
     sbind (read_bytes 4 d) (\<lambda>bs d. (Inr (Float32 (from_le_bytes bs)), d))"
  "decode_tag dv TAG_FLOAT64 d =
     sbind (read_bytes 8 d) (\<lambda>bs d. (Inr (Float64 (from_le_bytes bs)), d))"
  "decode_tag dv TAG_NULL d = (Inr Null, d)"
  "decode_tag dv TAG_FALSE d = (Inr (Bool False), d)"
  "decode_tag dv TAG_TRUE d = (Inr (Bool True), d)"
  "decode_tag dv TAG_TIMESTAMP d = sbind (read_u64_le d) (\<lambda>v d. (Inr (Timestamp v), d))"
  "decode_tag dv TAG_UUID d = sbind (read_bytes 16 d) (\<lambda>bs d. (Inr (Uuid bs), d))"
  "decode_tag dv TAG_EXT d = (Inl (InvalidTag TAG_EXT), d)"
  by (simp_all add: decode_tag_def tag_defs split del: if_split)

lemma ucast_le_7F: "v \<le> 0x7F \<Longrightarrow> (ucast (v :: u64) :: u8) \<le> 0x7F"
  by (simp add: word_le_nat_alt unsigned_ucast_eq take_bit_nat_eq_self)

text \<open>Each scalar header is decoded by unfolding both sides in the range of the value.\<close>

lemmas read_after_tag = read_u8_at [OF at_ConsD] read_u16_at [OF at_ConsD]
  read_u32_at [OF at_ConsD] read_u64_at [OF at_ConsD] read_u128_at [OF at_ConsD]

lemma body_uint_at:
  assumes "at d (wire_uint v)"
  shows "decode_value_body dv d = (Inr (canon_uint v), skip (length (wire_uint v)) d)"
proof -
  consider "v \<le> 0x7F" | "0x7F < v" "v \<le> 0xFF" | "0xFF < v" "v \<le> 0xFFFF"
    | "0xFFFF < v" "v \<le> 0xFFFFFFFF" | "0xFFFFFFFF < v"
    by force
  then show ?thesis
  proof cases
    case 1
    then have "canon_uint v = UInt8 (ucast v)" and w: "wire_uint v = [ucast v]"
      by (simp_all add: canon_uint_def wire_uint_def word_le_nat_alt)
    with 1 assms show ?thesis
      by (simp add: body_at tag_arms ucast_le_7F)
  next
    case 2
    then have "canon_uint v = UInt8 (ucast v)" and "wire_uint v = [TAG_UINT8, ucast v]"
      by (simp_all add: canon_uint_def wire_uint_def word_le_nat_alt word_less_nat_alt)
    with assms show ?thesis
      by (simp add: body_at tag_arms read_after_tag)
  next
    case 3
    then have "canon_uint v = UInt16 (ucast v)"
      and "wire_uint v = TAG_UINT16 # to_le_bytes (ucast v :: u16)"
      by (simp_all add: canon_uint_def wire_uint_def word_le_nat_alt word_less_nat_alt)
    with assms show ?thesis
      by (simp add: body_at tag_arms read_after_tag numeral_3_eq_3)
  next
    case 4
    then have "canon_uint v = UInt32 (ucast v)"
      and "wire_uint v = TAG_UINT32 # to_le_bytes (ucast v :: u32)"
      by (simp_all add: canon_uint_def wire_uint_def word_le_nat_alt word_less_nat_alt)
    with assms show ?thesis
      by (simp add: body_at tag_arms read_after_tag)
  next
    case 5
    then have "canon_uint v = UInt64 v" and "wire_uint v = TAG_UINT64 # to_le_bytes v"
      by (simp_all add: canon_uint_def wire_uint_def word_le_nat_alt word_less_nat_alt)
    with assms show ?thesis
      by (simp add: body_at tag_arms read_after_tag)
  qed
qed

lemma body_uint128_at:
  assumes "at d (wire_uint128 v)"
  shows "decode_value_body dv d =
    (Inr (canon (UInt128 v)), skip (length (wire_uint128 v)) d)"
  using assms
  by (auto simp: wire_uint128_def body_uint_at body_at tag_arms read_after_tag)

lemma neg_fixint_tag:
  assumes "- 12 \<le> sint v" "sint (v :: u64) < 0"
  shows "decode_tag dv (0x90 + ucast (- v - 1)) d = (Inr (Int8 (ucast v)), d)"
proof -
  have "sint v \<in> {-1, -2, -3, -4, -5, -6, -7, -8, -9, -10, -11, -12}"
    using assms unfolding insert_iff empty_iff by presburger
  then have "word_of_int (sint v) \<in> (word_of_int ` {-1, -2, -3, -4, -5, -6, -7, -8, -9, -10, -11, -12} :: u64 set)"
    by (rule imageI)
  then have "v \<in> {-1, -2, -3, -4, -5, -6, -7, -8, -9, -10, -11, -12}"
    by simp
  moreover have "(ucast (- 1 :: u64) :: u8) = - 1"
    by (rule bit_word_eqI) (simp add: bit_simps)
  ultimately show ?thesis
    by (elim insertE emptyE; hypsubst)
      (simp_all add: decode_tag_def tag_defs split del: if_split)
qed

lemma body_int_at:
  assumes "at d (wire_int v)"
  shows "decode_value_body dv d = (Inr (canon_int v), skip (length (wire_int v)) d)"
proof -
  consider "0 \<le> sint v" | "sint v < 0" "- 12 \<le> sint v" | "sint v < - 12" "- (2 ^ 7) \<le> sint v"
    | "sint v < - (2 ^ 7)" "- (2 ^ 15) \<le> sint v" | "sint v < - (2 ^ 15)" "- (2 ^ 31) \<le> sint v"
    | "sint v < - (2 ^ 31)"
    by linarith
  then show ?thesis
  proof cases
    case 1
    with assms show ?thesis by (simp add: wire_int_def canon_int_def body_uint_at)
  next
    case 2
    with assms show ?thesis
      by (simp add: wire_int_def canon_int_def body_at neg_fixint_tag)
  next
    case 3
    with assms show ?thesis
      by (simp add: wire_int_def canon_int_def body_at tag_arms read_after_tag)
  next
    case 4
    with assms show ?thesis
      by (simp add: wire_int_def canon_int_def body_at tag_arms read_after_tag numeral_3_eq_3)
  next
    case 5
    with assms show ?thesis
      by (simp add: wire_int_def canon_int_def body_at tag_arms read_after_tag)
  next
    case 6
    with assms show ?thesis
      by (simp add: wire_int_def canon_int_def body_at tag_arms read_after_tag)
  qed
qed

section \<open>Containers and the round trip\<close>

definition decodes :: "(decoder \<Rightarrow> pack_value dec_result) \<Rightarrow> nat \<Rightarrow> pack_value \<Rightarrow> bool" where
  "decodes dv k v \<longleftrightarrow>
     (\<forall>d. at d (wire v) \<longrightarrow> depth d = k \<longrightarrow> dv d = (Inr (canon v), skip (length (wire v)) d))"

lemma decodesD:
  "decodes dv k v \<Longrightarrow> at d (wire v) \<Longrightarrow> depth d = k \<Longrightarrow>
   dv d = (Inr (canon v), skip (length (wire v)) d)"
  by (simp add: decodes_def)

lemma items_at:
  assumes "\<forall>v\<in>set vs. decodes dv k v" "at d (concat (map wire vs))" "depth d = k"
  shows "decode_items dv (length vs) acc d =
    (Inr (acc @ map canon vs), skip (length (concat (map wire vs))) d)"
  using assms
proof (induction vs arbitrary: acc d)
  case Nil
  then show ?case by simp
next
  case (Cons v vs)
  from Cons.prems(2) have "at d (wire v @ concat (map wire vs))" by simp
  then have "at d (wire v)" and rest: "at (skip (length (wire v)) d) (concat (map wire vs))"
    by (rule at_appendD1, rule at_appendD2)
  with Cons.prems have "dv d = (Inr (canon v), skip (length (wire v)) d)"
    by (auto intro: decodesD)
  with Cons.IH [OF _ rest] Cons.prems show ?case by simp
qed

lemma pairs_at:
  assumes "\<forall>(x, v)\<in>set ps. decodes dv k x \<and> decodes dv k v"
    "at d (concat (map (\<lambda>(x, v). wire x @ wire v) ps))" "depth d = k"
  shows "decode_pairs dv (length ps) acc d =
    (Inr (acc @ map (\<lambda>(x, v). (canon x, canon v)) ps),
     skip (length (concat (map (\<lambda>(x, v). wire x @ wire v) ps))) d)"
  using assms
proof (induction ps arbitrary: acc d)
  case Nil
  then show ?case by simp
next
  case (Cons p ps)
  obtain x v where p: "p = (x, v)" by fastforce
  let ?d1 = "skip (length (wire x)) d"
  from Cons.prems(2) have
    "at d (wire x @ wire v @ concat (map (\<lambda>(x, v). wire x @ wire v) ps))" by (simp add: p)
  then have x: "at d (wire x)"
    and r: "at ?d1 (wire v @ concat (map (\<lambda>(x, v). wire x @ wire v) ps))"
    by (rule at_appendD1, rule at_appendD2)
  from r have v: "at ?d1 (wire v)"
    and rest: "at (skip (length (wire v)) ?d1) (concat (map (\<lambda>(x, v). wire x @ wire v) ps))"
    by (rule at_appendD1, rule at_appendD2)
  from Cons.prems x have 1: "dv d = (Inr (canon x), ?d1)"
    by (auto intro: decodesD simp: p)
  from Cons.prems v have 2: "dv ?d1 = (Inr (canon v), skip (length (wire v)) ?d1)"
    by (intro decodesD) (auto simp: p)
  from Cons.IH [OF _ rest] Cons.prems 1 2 show ?case by (simp add: p)
qed

lemma array_at:
  assumes "\<forall>v\<in>set vs. decodes dv (Suc k) v" "at d (concat (map wire vs))" "depth d = k"
    "k < MAX_DEPTH"
  shows "decode_array_values dv (length vs) d =
    (Inr (Array (map canon vs)), skip (length (concat (map wire vs))) d)"
proof -
  let ?d = "d\<lparr>depth := Suc k\<rparr>"
  have "at ?d (concat (map wire vs))" using assms(2) by (simp add: at_def)
  then have "decode_items dv (length vs) [] ?d =
    (Inr (map canon vs), skip (length (concat (map wire vs))) ?d)"
    using items_at [OF assms(1), of ?d "[]"] by simp
  then show ?thesis using assms(3,4)
    by (simp add: decode_array_values_def push_depth_def Let_def pop_depth_def skip_def)
qed

lemma map_at:
  assumes "\<forall>(x, v)\<in>set ps. decodes dv (Suc k) x \<and> decodes dv (Suc k) v"
    "at d (concat (map (\<lambda>(x, v). wire x @ wire v) ps))" "depth d = k" "k < MAX_DEPTH"
  shows "decode_map_values dv (length ps) d =
    (Inr (Map (map (\<lambda>(x, v). (canon x, canon v)) ps)),
     skip (length (concat (map (\<lambda>(x, v). wire x @ wire v) ps))) d)"
proof -
  let ?d = "d\<lparr>depth := Suc k\<rparr>"
  have "at ?d (concat (map (\<lambda>(x, v). wire x @ wire v) ps))" using assms(2) by (simp add: at_def)
  then have "decode_pairs dv (length ps) [] ?d =
    (Inr (map (\<lambda>(x, v). (canon x, canon v)) ps),
     skip (length (concat (map (\<lambda>(x, v). wire x @ wire v) ps))) ?d)"
    using pairs_at [OF assms(1), of ?d "[]"] by simp
  then show ?thesis using assms(3,4)
    by (simp add: decode_map_values_def push_depth_def Let_def pop_depth_def skip_def)
qed

text \<open>One step of the decoder at a scalar.\<close>

lemma body_string_at:
  assumes "at d (wire (String s))" "utf8_valid s" "length s \<le> 0xFFFFFFFF"
  shows "decode_value_body dv d = (Inr (String s), skip (length (wire (String s))) d)"
  using body_prefix_at [OF reads_prefix_str [of dv], of d "length s" s] assms
  by (simp add: read_string_at)

lemma body_binary_at:
  assumes "at d (wire (Binary s))" "length s \<le> 0xFFFFFFFF"
  shows "decode_value_body dv d = (Inr (Binary s), skip (length (wire (Binary s))) d)"
  using body_prefix_at [OF reads_prefix_bin [of dv], of d "length s" s] assms
  by (simp add: read_binary_at)

lemma body_scalar_at:
  "at d (wire Null) \<Longrightarrow> decode_value_body dv d = (Inr Null, skip (length (wire Null)) d)"
  "at d (wire (Bool b)) \<Longrightarrow>
     decode_value_body dv d = (Inr (Bool b), skip (length (wire (Bool b))) d)"
  "at d (wire (Float32 x)) \<Longrightarrow>
     decode_value_body dv d = (Inr (Float32 x), skip (length (wire (Float32 x))) d)"
  "at d (wire (Float64 y)) \<Longrightarrow>
     decode_value_body dv d = (Inr (Float64 y), skip (length (wire (Float64 y))) d)"
  "at d (wire (Timestamp y)) \<Longrightarrow>
     decode_value_body dv d = (Inr (Timestamp y), skip (length (wire (Timestamp y))) d)"
  "at d (wire (Uuid u)) \<Longrightarrow> length u = 16 \<Longrightarrow>
     decode_value_body dv d = (Inr (Uuid u), skip (length (wire (Uuid u))) d)"
  using read_bytes_at [OF at_ConsD, of d TAG_FLOAT32 "to_le_bytes x"]
    read_bytes_at [OF at_ConsD, of d TAG_FLOAT64 "to_le_bytes y"]
    read_bytes_at [OF at_ConsD, of d TAG_UUID u]
  by (auto simp: body_at tag_arms read_after_tag)

lemma decode_value_at:
  assumes "wf_value v" "\<not> has_ext v" "encodable v" "k + nest v \<le> MAX_DEPTH"
  shows "decodes decode_value k v"
  using assms
proof (induction v arbitrary: k)
  case (Array vs)
  then have nest: "\<forall>v\<in>set vs. Suc k + nest v \<le> MAX_DEPTH" and k: "k < MAX_DEPTH"
    using nest_Array_le [of vs "MAX_DEPTH - Suc k"] by auto
  with Array have dec: "\<forall>v\<in>set vs. decodes decode_value (Suc k) v"
    by (auto simp: list_all_iff list_ex_iff)
  show ?case unfolding decodes_def
  proof (intro allI impI)
    fix d assume at: "at d (wire (Array vs))" and d: "depth d = k"
    have "decode_value_body decode_value d = (Inr (canon (Array vs)), skip (length (wire (Array vs))) d)"
      using body_prefix_at [OF reads_prefix_array [of decode_value], of d "length vs" "concat (map wire vs)"]
        at d k Array.prems(3) array_at [OF dec]
      by simp
    with d k show "decode_value d = (Inr (canon (Array vs)), skip (length (wire (Array vs))) d)"
      by (simp add: decode_value_unfold)
  qed
next
  case (Map ps)
  then have nest: "\<forall>(x, v)\<in>set ps. Suc k + nest x \<le> MAX_DEPTH \<and> Suc k + nest v \<le> MAX_DEPTH"
    and k: "k < MAX_DEPTH"
    using nest_Map_le [of ps "MAX_DEPTH - Suc k"] by auto
  with Map have dec: "\<forall>(x, v)\<in>set ps. decodes decode_value (Suc k) x \<and> decodes decode_value (Suc k) v"
    by (fastforce simp: list_all_iff list_ex_iff)
  show ?case unfolding decodes_def
  proof (intro allI impI)
    fix d assume at: "at d (wire (Map ps))" and d: "depth d = k"
    have "decode_value_body decode_value d = (Inr (canon (Map ps)), skip (length (wire (Map ps))) d)"
      using body_prefix_at [OF reads_prefix_map [of decode_value], of d "length ps"
          "concat (map (\<lambda>(x, v). wire x @ wire v) ps)"]
        at d k Map.prems(3) map_at [OF dec]
      by simp
    with d k show "decode_value d = (Inr (canon (Map ps)), skip (length (wire (Map ps))) d)"
      by (simp add: decode_value_unfold)
  qed
qed (simp_all add: decodes_def decode_value_unfold body_scalar_at body_string_at body_binary_at
    body_uint_at body_uint128_at body_int_at del: wire.simps(1,2) wire.simps(12-17))
lemma decode_wire:
  assumes "wf_value v" "\<not> has_ext v" "encodable v" "nest v \<le> MAX_DEPTH"
  shows "decode (wire v @ rest) = Inr (canon v)"
proof -
  from assms have "decodes decode_value 0 v"
    by (intro decode_value_at) simp_all
  then have "decode_value (decoder_new (wire v @ rest)) =
      (Inr (canon v), skip (length (wire v)) (decoder_new (wire v @ rest)))"
    using at_whole [of "wire v" rest] by (intro decodesD) (simp_all add: decoder_new_def)
  then show ?thesis by (simp add: decode_def)
qed

section \<open>Canonical values have the same encoding\<close>

lemma ucast_ucast_id:
  "v \<le> 0xFF \<Longrightarrow> ucast (ucast v :: u8) = (v :: u64)"
  "v \<le> 0xFFFF \<Longrightarrow> ucast (ucast v :: u16) = (v :: u64)"
  "v \<le> 0xFFFFFFFF \<Longrightarrow> ucast (ucast v :: u32) = (v :: u64)"
  by (simp_all add: word_unat_eq_iff word_le_nat_alt unsigned_ucast_eq unsigned_take_bit_eq
      take_bit_nat_eq_self)

lemma scast_ucast_id:
  assumes "LENGTH('b) \<le> 64" "- (2 ^ (LENGTH('b) - 1)) \<le> sint v" "sint v < 0"
  shows "scast (ucast (v :: u64) :: 'b::len word) = v"
proof -
  have lt: "LENGTH('b) - Suc 0 < 64" using assms(1) by (simp add: Suc_diff_le less_eq_Suc_le)
  have "sint (ucast v :: 'b word) = signed_take_bit (LENGTH('b) - Suc 0) (take_bit 64 (sint v))"
    by (simp add: signed_ucast_eq uint_sint)
  also have "\<dots> = signed_take_bit (LENGTH('b) - Suc 0) (sint v)"
    using lt by (simp add: signed_take_bit_take_bit)
  also have "\<dots> = sint v"
    using assms(2,3) by (intro signed_take_bit_int_eq_self) (simp_all add: less_trans [of _ 0])
  finally show ?thesis
    by (simp add: scast_eq)
qed

lemma wire_canon_uint: "wire (canon_uint v) = wire_uint v"
  by (simp add: canon_uint_def ucast_ucast_id)

lemma wire_canon_int: "wire (canon_int v) = wire_int v"
  by (simp add: canon_int_def wire_canon_uint scast_ucast_id wire_int_def)

lemma wire_canon: "wire (canon v) = wire v"
proof (induction v)
  case (Array vs)
  then have "map (wire \<circ> canon) vs = map wire vs" by simp
  then show ?case by (simp only: wire.simps canon.simps length_map map_map)
next
  case (Map ps)
  then have "map ((\<lambda>(k, v). wire k @ wire v) \<circ> (\<lambda>(k, v). (canon k, canon v))) ps
      = map (\<lambda>(k, v). wire k @ wire v) ps"
    by (fastforce intro: map_cong)
  then show ?case by (simp only: wire.simps canon.simps length_map map_map)
qed (simp_all add: wire_canon_uint wire_canon_int wire_uint128_def)

lemma canon_canon_uint: "canon (canon_uint v) = canon_uint v"
  by (auto simp: canon_uint_def ucast_ucast_id)

lemma canon_canon_int: "canon (canon_int v) = canon_int v"
  by (auto simp: canon_int_def scast_ucast_id canon_canon_uint)

lemma canon_idem: "canon (canon v) = canon v"
  by (induction v) (auto simp: canon_canon_uint canon_canon_int)

lemma encodable_canon_ints: "encodable (canon_uint v)" "encodable (canon_int v)"
  by (simp_all add: canon_uint_def canon_int_def)

lemma encode_canon_ints:
  "encode_value (canon_uint v) e = (Inr (), encode_uint v e)"
  "encode_value (canon_int v) e = (Inr (), encode_int v e)"
  by (simp_all add: encode_appends encodable_canon_ints wire_canon_uint wire_canon_int
      encode_uint_appends encode_int_appends)

lemma encode_canon:
  shows "encode_value (canon v) e = encode_value v e"
    and "encode_items (map canon vs) e = encode_items vs e"
    and "encode_pairs (map (\<lambda>(k, v). (canon k, canon v)) ps) e = encode_pairs ps e"
  by (induction v e and vs e and ps e rule: encode_value_encode_items_encode_pairs.induct)
    (auto simp: encode_canon_ints encode_uint128_def intro!: sbind_cong_Inr)

section \<open>What a successful decode returns\<close>

definition returns :: "nat \<Rightarrow> ('a \<Rightarrow> bool) \<Rightarrow> (decoder \<Rightarrow> 'a dec_result) \<Rightarrow> bool" where
  "returns k Q f \<longleftrightarrow> (\<forall>d x d'. depth d = k \<longrightarrow> f d = (Inr x, d') \<longrightarrow> Q x)"

lemma returnsI: "(\<And>d x d'. depth d = k \<Longrightarrow> f d = (Inr x, d') \<Longrightarrow> Q x) \<Longrightarrow> returns k Q f"
  by (simp add: returns_def)

lemma returnsD: "returns k Q f \<Longrightarrow> f d = (Inr x, d') \<Longrightarrow> depth d = k \<Longrightarrow> Q x"
  by (auto simp: returns_def)

lemma returns_sbind:
  assumes "advances f" "returns k P f" "\<And>x. P x \<Longrightarrow> returns k Q (g x)"
  shows "returns k Q (\<lambda>d. sbind (f d) g)"
  using assms unfolding returns_def sbind_Inr_iff advances_def advance_def by metis

lemma returns_read: "returns k (\<lambda>_. True) f"
  by (simp add: returns_def)

lemma returns_result: "(\<And>x. r = Inr x \<Longrightarrow> Q x) \<Longrightarrow> returns k Q (\<lambda>d. (r, d))"
  by (auto simp: returns_def)

lemma returns_if: "returns k Q f \<Longrightarrow> returns k Q g \<Longrightarrow> returns k Q (\<lambda>d. if b then f d else g d)"
  by (auto simp: returns_def)

definition sound_value :: "nat \<Rightarrow> pack_value \<Rightarrow> bool" where
  "sound_value k v \<longleftrightarrow> wf_value v \<and> \<not> has_ext v \<and> k + nest v \<le> MAX_DEPTH"

lemma returns_items:
  "returns k (sound_value k) f \<Longrightarrow> advances f \<Longrightarrow> \<forall>v\<in>set acc. sound_value k v \<Longrightarrow>
   returns k (\<lambda>vs. \<forall>v\<in>set vs. sound_value k v) (decode_items f n acc)"
proof (induction n arbitrary: acc)
  case 0
  then show ?case by (auto simp: returns_def)
next
  case (Suc n)
  then have "returns k (\<lambda>vs. \<forall>v\<in>set vs. sound_value k v)
      (\<lambda>d. sbind (f d) (\<lambda>v d. decode_items f n (acc @ [v]) d))"
    by (intro returns_sbind [where P = "sound_value k"] Suc.IH) auto
  then show ?case by (simp add: returns_def)
qed

lemma returns_pairs:
  "returns k (sound_value k) f \<Longrightarrow> advances f \<Longrightarrow>
   \<forall>(x, v)\<in>set acc. sound_value k x \<and> sound_value k v \<Longrightarrow>
   returns k (\<lambda>ps. \<forall>(x, v)\<in>set ps. sound_value k x \<and> sound_value k v) (decode_pairs f n acc)"
proof (induction n arbitrary: acc)
  case 0
  then show ?case by (auto simp: returns_def)
next
  case (Suc n)
  then have "returns k (\<lambda>ps. \<forall>(x, v)\<in>set ps. sound_value k x \<and> sound_value k v)
      (\<lambda>d. sbind (f d) (\<lambda>x d. sbind (f d) (\<lambda>v d. decode_pairs f n (acc @ [(x, v)]) d)))"
    by (intro returns_sbind [where P = "sound_value k"] Suc.IH) auto
  then show ?case by (simp add: returns_def)
qed

lemma sound_Array:
  "k < MAX_DEPTH \<Longrightarrow> \<forall>v\<in>set vs. sound_value (Suc k) v \<Longrightarrow> sound_value k (Array vs)"
  using nest_Array_le [of vs "MAX_DEPTH - Suc k"]
  by (auto simp: sound_value_def list_all_iff list_ex_iff simp del: nest.simps)

lemma sound_Map:
  "k < MAX_DEPTH \<Longrightarrow> \<forall>(x, v)\<in>set ps. sound_value (Suc k) x \<and> sound_value (Suc k) v \<Longrightarrow>
   sound_value k (Map ps)"
  using nest_Map_le [of ps "MAX_DEPTH - Suc k"]
  by (auto simp: sound_value_def list_all_iff list_ex_iff simp del: nest.simps)

lemma returns_array_values:
  assumes "k < MAX_DEPTH \<Longrightarrow> returns (Suc k) (sound_value (Suc k)) f" "advances f"
  shows "returns k (sound_value k) (decode_array_values f n)"
proof (rule returnsI)
  fix d x d'
  assume d: "depth d = k" and dec: "decode_array_values f n d = (Inr x, d')"
  then obtain vs e where k: "k < MAX_DEPTH" and x: "x = Array vs"
    and it: "decode_items f n [] (d\<lparr>depth := Suc k\<rparr>) = (Inr vs, e)"
    by (auto simp: decode_array_values_def push_depth_def Let_def sbind_Inr_iff split: if_splits)
  from assms k have "returns (Suc k) (\<lambda>vs. \<forall>v\<in>set vs. sound_value (Suc k) v) (decode_items f n [])"
    by (intro returns_items) auto
  from returnsD [OF this it] k show "sound_value k x"
    by (simp add: x sound_Array)
qed

lemma returns_map_values:
  assumes "k < MAX_DEPTH \<Longrightarrow> returns (Suc k) (sound_value (Suc k)) f" "advances f"
  shows "returns k (sound_value k) (decode_map_values f n)"
proof (rule returnsI)
  fix d x d'
  assume d: "depth d = k" and dec: "decode_map_values f n d = (Inr x, d')"
  then obtain ps e where k: "k < MAX_DEPTH" and x: "x = Map ps"
    and it: "decode_pairs f n [] (d\<lparr>depth := Suc k\<rparr>) = (Inr ps, e)"
    by (auto simp: decode_map_values_def push_depth_def Let_def sbind_Inr_iff split: if_splits)
  from assms k have "returns (Suc k)
      (\<lambda>ps. \<forall>(x, v)\<in>set ps. sound_value (Suc k) x \<and> sound_value (Suc k) v) (decode_pairs f n [])"
    by (intro returns_pairs) auto
  from returnsD [OF this it] k show "sound_value k x"
    by (simp add: x sound_Map)
qed

lemma returns_length: "returns k (\<lambda>bs. length bs = n) (read_bytes n)"
  by (auto simp: returns_def read_bytes_def split: if_splits)

lemma sound_scalar:
  "k \<le> MAX_DEPTH \<Longrightarrow> nest v = 0 \<Longrightarrow> wf_value v \<Longrightarrow> \<not> has_ext v \<Longrightarrow> sound_value k v"
  by (simp add: sound_value_def)

lemma returns_string: "k \<le> MAX_DEPTH \<Longrightarrow> returns k (sound_value k) (read_string n)"
  by (auto simp: returns_def read_string_def from_utf8_def sbind_Inr_iff split: if_splits
      intro: sound_scalar)

lemma returns_binary: "k \<le> MAX_DEPTH \<Longrightarrow> returns k (sound_value k) (read_binary n)"
  by (auto simp: returns_def read_binary_def sbind_Inr_iff intro: sound_scalar)

lemma returns_uuid:
  "k \<le> MAX_DEPTH \<Longrightarrow>
   returns k (sound_value k) (\<lambda>d. sbind (read_bytes 16 d) (\<lambda>bs d. (Inr (Uuid bs), d)))"
  by (rule returns_sbind [OF advances_read_bytes returns_length])
    (auto simp: returns_def intro: sound_scalar)

lemma returns_body:
  assumes "k \<le> MAX_DEPTH" "k < MAX_DEPTH \<Longrightarrow> returns (Suc k) (sound_value (Suc k)) f" "advances f"
  shows "returns k (sound_value k) (decode_value_body f)"
  unfolding decode_value_body_def decode_tag_def using assms
  by (intro returns_sbind [OF advances_read_byte returns_read] returns_if returns_uuid
      returns_string returns_binary
      returns_sbind [OF advances_read_u8 returns_read] returns_sbind [OF advances_read_u16 returns_read]
      returns_sbind [OF advances_read_u32 returns_read] returns_sbind [OF advances_read_u64 returns_read]
      returns_sbind [OF advances_read_u128 returns_read]
      returns_sbind [OF advances_read_bytes returns_read]
      returns_array_values returns_map_values returns_result)
    (auto intro: sound_scalar)

lemma returns_lvl: "k \<le> MAX_DEPTH \<Longrightarrow> returns k (sound_value k) (decode_value_lvl (MAX_DEPTH - k))"
proof (induction "MAX_DEPTH - k" arbitrary: k)
  case 0
  then have "returns k (sound_value k) (decode_value_body (\<lambda>d. (Inl DepthLimitExceeded, d)))"
    by (intro returns_body) (auto simp: returns_def intro: adv_intros)
  with 0 show ?case by (simp add: returns_def)
next
  case (Suc n)
  then have n: "n = MAX_DEPTH - Suc k" by simp
  from Suc have "returns k (sound_value k) (decode_value_body (decode_value_lvl n))"
    by (intro returns_body advances_lvl) (auto simp: n)
  with Suc(2) show ?case by (simp add: returns_def flip: Suc(2))
qed

lemma decode_value_sound:
  "decode_value d = (Inr v, d') \<Longrightarrow> depth d \<le> MAX_DEPTH \<Longrightarrow> sound_value (depth d) v"
  using returns_lvl [of "depth d"] by (auto simp: decode_value_def returns_def)

section \<open>The zero-copy accessors\<close>

lemma fix_tag_cases:
  assumes "fix \<le> tag" "tag \<le> fix + 11" "fix \<le> (0xF0 :: u8)"
  obtains n where "n \<le> 11" "tag = fix + of_nat n" "unat (tag - fix) = n"
proof -
  have "unat (fix + 11) = unat fix + 11"
    using assms(3) by (simp add: word_le_nat_alt unat_word_ariths)
  then have "unat tag \<le> unat fix + 11" "unat fix \<le> unat tag"
    using assms(1,2) by (simp_all add: word_le_nat_alt)
  then have "unat (tag - fix) \<le> 11"
    by (simp add: unat_sub assms(1))
  moreover have "tag = fix + of_nat (unat (tag - fix))" by simp
  ultimately show ?thesis using that by blast
qed

definition str_tag :: "u8 \<Rightarrow> bool" where
  "str_tag tag \<longleftrightarrow> FIXSTR_BASE \<le> tag \<and> tag \<le> FIXSTR_BASE + FIXSTR_MAX_LEN
     \<or> tag \<in> {TAG_STR8, TAG_STR16, TAG_STR32}"

definition bin_tag :: "u8 \<Rightarrow> bool" where
  "bin_tag tag \<longleftrightarrow> FIXBIN_BASE \<le> tag \<and> tag \<le> FIXBIN_BASE + FIXBIN_MAX_LEN
     \<or> tag \<in> {TAG_BIN8, TAG_BIN16, TAG_BIN32}"

lemma decode_tag_String: "decode_tag dv tag d = (Inr (String s), d') \<Longrightarrow> str_tag tag"
  by (simp add: decode_tag_def str_tag_def read_binary_def decode_array_values_def
      decode_map_values_def sbind_Inr_iff split: if_splits)

lemma decode_tag_Binary: "decode_tag dv tag d = (Inr (Binary s), d') \<Longrightarrow> bin_tag tag"
  by (simp add: decode_tag_def bin_tag_def read_string_def decode_array_values_def
      decode_map_values_def sbind_Inr_iff split: if_splits)

lemma sbind_assoc: "sbind (sbind m f) g = sbind m (\<lambda>x s. sbind (f x s) g)"
  by (cases m rule: prod.exhaust, cases "fst m") auto

lemma decode_str_tag:
  assumes "str_tag tag"
  shows "decode_tag dv tag d = sbind (str_ref_len tag d) read_string"
proof (cases "FIXSTR_BASE \<le> tag \<and> tag \<le> FIXSTR_BASE + FIXSTR_MAX_LEN")
  case True
  then obtain n where "n \<le> 11" "tag = FIXSTR_BASE + of_nat n" "unat (tag - FIXSTR_BASE) = n"
    by (auto simp: FIXSTR_MAX_LEN_def FIXSTR_BASE_def elim: fix_tag_cases)
  with True show ?thesis
    using reads_prefix_str [of dv] by (simp add: str_ref_len_def reads_prefix_def)
next
  case False
  with assms show ?thesis
    using reads_prefix_str [of dv]
    by (auto simp: str_tag_def str_ref_len_def reads_prefix_def sbind_assoc
        TAG_STR8_def TAG_STR16_def TAG_STR32_def)
qed

lemma decode_bin_tag:
  assumes "bin_tag tag"
  shows "decode_tag dv tag d = sbind (bin_ref_len tag d) read_binary"
proof (cases "FIXBIN_BASE \<le> tag \<and> tag \<le> FIXBIN_BASE + FIXBIN_MAX_LEN")
  case True
  then obtain n where "n \<le> 11" "tag = FIXBIN_BASE + of_nat n" "unat (tag - FIXBIN_BASE) = n"
    by (auto simp: FIXBIN_MAX_LEN_def FIXBIN_BASE_def elim: fix_tag_cases)
  with True show ?thesis
    using reads_prefix_bin [of dv] by (simp add: bin_ref_len_def reads_prefix_def)
next
  case False
  with assms show ?thesis
    using reads_prefix_bin [of dv]
    by (auto simp: bin_tag_def bin_ref_len_def reads_prefix_def sbind_assoc
        TAG_BIN8_def TAG_BIN16_def TAG_BIN32_def)
qed

lemma str_ref_len_other: "str_ref_len tag d = (Inr n, d') \<Longrightarrow> str_tag tag"
  by (auto simp: str_ref_len_def str_tag_def split: if_splits)

lemma bin_ref_len_other: "bin_ref_len tag d = (Inr n, d') \<Longrightarrow> bin_tag tag"
  by (auto simp: bin_ref_len_def bin_tag_def split: if_splits)

lemma read_string_Inr_iff:
  "read_string n d = (Inr v, d') \<longleftrightarrow>
   (\<exists>s. v = String s \<and> sbind (read_bytes n d) (\<lambda>bs d. (from_utf8 bs, d)) = (Inr s, d'))"
  by (auto simp: read_string_def sbind_Inr_iff from_utf8_def split: if_splits)

lemma read_binary_Inr_iff:
  "read_binary n d = (Inr v, d') \<longleftrightarrow> (\<exists>s. v = Binary s \<and> read_bytes n d = (Inr s, d'))"
  by (auto simp: read_binary_def sbind_Inr_iff)

lemma decode_str_ref_iff:
  assumes "depth d \<le> MAX_DEPTH"
  shows "decode_str_ref d = (Inr s, d') \<longleftrightarrow> decode_value d = (Inr (String s), d')"
proof -
  have "sbind (str_ref_len tag e) (\<lambda>len d. sbind (read_bytes len d) (\<lambda>bs d. (from_utf8 bs, d)))
      = (Inr s, d') \<longleftrightarrow> decode_tag decode_value tag e = (Inr (String s), d')" for tag e
  proof (cases "str_tag tag")
    case True
    then show ?thesis by (simp add: decode_str_tag sbind_Inr_iff read_string_Inr_iff)
  next
    case False
    then show ?thesis by (auto simp: sbind_Inr_iff dest: str_ref_len_other decode_tag_String)
  qed
  then show ?thesis
    by (simp add: decode_value_unfold assms decode_value_body_def decode_str_ref_def sbind_Inr_iff)
qed

lemma decode_bin_ref_iff:
  assumes "depth d \<le> MAX_DEPTH"
  shows "decode_bin_ref d = (Inr s, d') \<longleftrightarrow> decode_value d = (Inr (Binary s), d')"
proof -
  have "sbind (bin_ref_len tag e) read_bytes = (Inr s, d')
      \<longleftrightarrow> decode_tag decode_value tag e = (Inr (Binary s), d')" for tag e
  proof (cases "bin_tag tag")
    case True
    then show ?thesis by (simp add: decode_bin_tag sbind_Inr_iff read_binary_Inr_iff)
  next
    case False
    then show ?thesis by (auto simp: sbind_Inr_iff dest: bin_ref_len_other decode_tag_Binary)
  qed
  then show ?thesis
    by (simp add: decode_value_unfold assms decode_value_body_def decode_bin_ref_def sbind_Inr_iff)
qed

section \<open>Properties of the codec\<close>



text \<open>
  The canonical variant of a value has the same encoding as the value, and taking it
  twice changes nothing, so encoding and decoding settle after one round.
\<close>

theorem smartpack_canonical: "encode (canon v) = encode v \<and> canon (canon v) = canon v"
  by (simp add: encode_def encode_canon canon_idem)

text \<open>
  C5: encoding succeeds exactly when every string, blob, array and map is at most
  \<open>u32::MAX\<close> long, and then yields the wire format of the value.
\<close>

theorem smartpack_encode_total: "encode v = Inr bs \<longleftrightarrow> encodable v \<and> bs = wire v"
  by (rule encode_Inr_iff)

text \<open>
  C6: a successful decode keeps the slice and the container depth, consumes at least one
  byte and never moves past the end of the slice.
\<close>

theorem smartpack_decode_progress:
  assumes "decode_value d = (Inr v, d')" "depth d \<le> MAX_DEPTH" "pos d \<le> length (data d)"
  shows "data d' = data d \<and> depth d' = depth d \<and> pos d < pos d' \<and> pos d' \<le> length (data d')"
proof -
  from assms(1,2) have "decode_value_body decode_value d = (Inr v, d')"
    by (simp add: decode_value_unfold)
  then obtain tag e where e: "read_byte d = (Inr tag, e)"
    and t: "decode_tag decode_value tag e = (Inr v, d')"
    by (auto simp: decode_value_body_def sbind_Inr_iff)
  from e have "pos e = Suc (pos d)" "advance d e"
    by (auto simp: read_byte_def split: if_splits intro: advancesD [OF advances_read_byte])
  moreover from t have "advance e d'"
    by (rule advancesD [OF advances_tag [OF advances_decode_value]])
  ultimately show ?thesis using assms(3) by (auto simp: advance_def)
qed

theorem smartpack_decode_progress_witness:
  "pos (snd (decode_value (decoder_new [0x2A, 7]))) \<le> 2"
proof -
  have "decode_value (decoder_new [0x2A, 7]) = (Inr (UInt8 0x2A), decoder_new [0x2A, 7]\<lparr>pos := 1\<rparr>)"
    by (simp add: decode_value_unfold decoder_new_def decode_value_body_def read_byte_def
        decode_tag_def FIXINT_MAX_def)
  from smartpack_decode_progress [OF this] this show ?thesis
    by (simp add: decoder_new_def)
qed

text \<open>
  C4: whatever bytes are decoded, a value that comes out has valid UTF-8 strings, sixteen
  byte UUIDs, no extension inside and at most \<open>MAX_DEPTH\<close> nested containers.
\<close>

theorem smartpack_decode_sound:
  assumes "decode bs = Inr v"
  shows "wf_value v \<and> \<not> has_ext v \<and> nest v \<le> MAX_DEPTH"
proof -
  obtain d' where "decode_value (decoder_new bs) = (Inr v, d')"
    using assms by (metis decode_def eq_fst_iff)
  from decode_value_sound [OF this] show ?thesis
    by (simp add: decoder_new_def sound_value_def)
qed

theorem smartpack_decode_sound_witness: "nest (Array [Null]) \<le> MAX_DEPTH"
proof -
  have "decode [0xD1, 0xF0] = Inr (Array [Null])"
    using decode_wire [of "Array [Null]" "[]"] by (simp add: MAX_DEPTH_def len_prefix_def tag_defs)
  from smartpack_decode_sound [OF this] show ?thesis by simp
qed

text \<open>
  The level-indexed decoder satisfies the recursive equation of the source: below the
  depth limit \<open>decode_value\<close> is its own body, the array and map loops calling
  \<open>decode_value\<close> again. The recursion therefore ends on every input.
\<close>

theorem smartpack_decode_recursion:
  assumes "depth d \<le> MAX_DEPTH"
  shows "decode_value d = sbind (read_byte d) (\<lambda>tag d. decode_tag decode_value tag d)"
  using decode_value_unfold [OF assms] by (simp add: decode_value_body_def)

theorem smartpack_decode_recursion_witness:
  "decode_value (decoder_new []) = (Inl UnexpectedEof, decoder_new [])"
  using smartpack_decode_recursion [of "decoder_new []"]
  by (simp add: decoder_new_def read_byte_def)

text \<open>
  C7: the zero-copy accessors agree with the full decoder: they return a string or a blob
  exactly when \<open>decode_value\<close> returns that string or blob, and leave the decoder in the same
  state.
\<close>

theorem smartpack_zero_copy:
  assumes "depth d \<le> MAX_DEPTH"
  shows "(decode_str_ref d = (Inr s, d')) = (decode_value d = (Inr (String s), d'))
    \<and> (decode_bin_ref d = (Inr b, d')) = (decode_value d = (Inr (Binary b), d'))"
  using decode_str_ref_iff [OF assms] decode_bin_ref_iff [OF assms] by simp

theorem smartpack_zero_copy_witness:
  "decode_value (decoder_new [0xC1, 5]) = (Inr (Binary [5]), decoder_new [0xC1, 5]\<lparr>pos := 2\<rparr>)"
proof -
  have "decode_bin_ref (decoder_new [0xC1, 5]) = (Inr [5], decoder_new [0xC1, 5]\<lparr>pos := 2\<rparr>)"
    by (simp add: decode_bin_ref_def bin_ref_len_def read_byte_def read_bytes_def decoder_new_def
        subslice_def tag_defs)
  with smartpack_zero_copy [of "decoder_new [0xC1, 5]"] show ?thesis
    by (simp add: decoder_new_def)
qed

text \<open>
  An extension value encodes without an error, but the decoder has no arm for its tag:
  decoding what was written fails.
\<close>

theorem smartpack_extension_lost:
  "\<exists>bs. encode (Extension type_id ext) = Inr bs \<and> decode bs = Inl (InvalidTag TAG_EXT)"
proof -
  let ?bs = "wire (Extension type_id ext)"
  have "at (decoder_new ?bs) ?bs" using at_whole [of ?bs "[]"] by simp
  then have "decode_value (decoder_new ?bs) =
      (Inl (InvalidTag TAG_EXT), skip (Suc 0) (decoder_new ?bs))"
    by (simp add: decode_value_unfold decoder_new_def body_at tag_arms)
  then have "decode ?bs = Inl (InvalidTag TAG_EXT)" by (simp add: decode_def)
  then show ?thesis using encode_eq [of "Extension type_id ext"] by auto
qed

end
