(* ===== verification/Pack_Pkg.thy ===== *)
theory Pack_Pkg
  imports Pack_Roundtrip
begin

text \<open>
  The SmartPkg container (\<open>smartpack/src/pkg.rs\<close>): a manifest, a payload and a signature in
  one SmartPack map. Error messages are the strings of the source.
\<close>

section \<open>Packages\<close>

record smart_pkg =
  pkg_name :: bytes
  pkg_version :: bytes
  pkg_description :: bytes
  pkg_capabilities :: "bytes list"
  pkg_binary_payload :: bytes
  pkg_signature :: bytes

definition pkg_new :: "bytes \<Rightarrow> bytes \<Rightarrow> bytes \<Rightarrow> bytes \<Rightarrow> smart_pkg" where
  "pkg_new name version description binary =
     \<lparr>pkg_name = name, pkg_version = version, pkg_description = description,
      pkg_capabilities = [], pkg_binary_payload = binary, pkg_signature = []\<rparr>"

definition pkg_manifest :: "smart_pkg \<Rightarrow> pack_value" where
  "pkg_manifest p = Map
     [(String (ascii ''name''), String (pkg_name p)),
      (String (ascii ''version''), String (pkg_version p)),
      (String (ascii ''description''), String (pkg_description p)),
      (String (ascii ''capabilities''), Array (map String (pkg_capabilities p)))]"

definition pkg_root :: "smart_pkg \<Rightarrow> pack_value" where
  "pkg_root p = Map
     [(String (ascii ''manifest''), pkg_manifest p),
      (String (ascii ''payload''), Binary (pkg_binary_payload p)),
      (String (ascii ''signature''), Binary (pkg_signature p))]"

definition pkg_encode :: "smart_pkg \<Rightarrow> encode_error + bytes" where
  "pkg_encode p = encode (pkg_root p)"

text \<open>\<open>map.iter().find(|(k, _)| k.as_str() == Some(key)).map(|(_, v)| v)\<close>\<close>

definition find_key :: "string \<Rightarrow> (pack_value \<times> pack_value) list \<Rightarrow> pack_value option" where
  "find_key key m =
     map_option snd (List.find (\<lambda>(k, _). as_str k = Some (ascii key)) m)"

definition pkg_of_value :: "pack_value \<Rightarrow> string + smart_pkg" where
  "pkg_of_value root =
     rbind (ok_or ''Root is not a map'' (as_map root)) (\<lambda>m.
     rbind (ok_or ''Missing manifest'' (find_key ''manifest'' m)) (\<lambda>manifest_val.
     rbind (ok_or ''Missing payload'' (find_key ''payload'' m)) (\<lambda>payload_val.
     rbind (ok_or ''Missing signature'' (find_key ''signature'' m)) (\<lambda>signature_val.
     rbind (ok_or ''Manifest is not a map'' (as_map manifest_val)) (\<lambda>mm.
     rbind (ok_or ''Missing name'' (Option.bind (find_key ''name'' mm) as_str)) (\<lambda>name.
     rbind (ok_or ''Missing version'' (Option.bind (find_key ''version'' mm) as_str)) (\<lambda>version.
     rbind (ok_or ''Missing description'' (Option.bind (find_key ''description'' mm) as_str)) (\<lambda>description.
     let capabilities =
       (case Option.bind (find_key ''capabilities'' mm) as_array of
          Some cap_val \<Rightarrow> List.map_filter as_str cap_val
        | None \<Rightarrow> []) in
     rbind (ok_or ''Payload is not binary'' (as_bytes payload_val)) (\<lambda>binary_payload.
     rbind (ok_or ''Signature is not binary'' (as_bytes signature_val)) (\<lambda>signature.
     Inr \<lparr>pkg_name = name, pkg_version = version, pkg_description = description,
          pkg_capabilities = capabilities, pkg_binary_payload = binary_payload,
          pkg_signature = signature\<rparr>))))))))))"

definition pkg_decode :: "bytes \<Rightarrow> string + smart_pkg" where
  "pkg_decode bs =
     (case decode bs of
        Inl _ \<Rightarrow> Inl ''Failed to decode SmartPack''
      | Inr root \<Rightarrow> pkg_of_value root)"

section \<open>Round trip\<close>

definition wf_pkg :: "smart_pkg \<Rightarrow> bool" where
  "wf_pkg p \<longleftrightarrow> utf8_valid (pkg_name p) \<and> utf8_valid (pkg_version p)
     \<and> utf8_valid (pkg_description p) \<and> list_all utf8_valid (pkg_capabilities p)"

lemma ascii_neq: "length s \<noteq> length t \<Longrightarrow> ascii s \<noteq> ascii t"
  unfolding ascii_def by (metis length_map)

lemma key_utf8:
  "utf8_valid (ascii ''name'')" "utf8_valid (ascii ''version'')"
  "utf8_valid (ascii ''description'')" "utf8_valid (ascii ''capabilities'')"
  "utf8_valid (ascii ''manifest'')" "utf8_valid (ascii ''payload'')"
  "utf8_valid (ascii ''signature'')"
  by (simp_all add: ascii_def utf8_valid_ascii)

lemma pkg_root_shape:
  "wf_pkg p \<Longrightarrow> wf_value (pkg_root p)" "\<not> has_ext (pkg_root p)"
  "nest (pkg_root p) \<le> MAX_DEPTH" "canon (pkg_root p) = pkg_root p"
proof -
  have "foldr (\<lambda>v. max (nest v)) (map String cs) 0 = 0" for cs
    by (induction cs) auto
  then show "nest (pkg_root p) \<le> MAX_DEPTH"
    by (simp add: pkg_root_def pkg_manifest_def MAX_DEPTH_def)
qed (auto simp: pkg_root_def pkg_manifest_def wf_pkg_def key_utf8 list_all_iff list_ex_iff comp_def)

lemma pkg_of_root: "pkg_of_value (pkg_root p) = Inr p"
proof -
  have "List.map_filter as_str (map String cs) = cs" for cs
    by (induction cs) (simp_all add: List.map_filter_simps)
  then show ?thesis
    by (simp add: pkg_of_value_def pkg_root_def pkg_manifest_def find_key_def ascii_neq)
qed

text \<open>
  C8: a package whose texts are valid UTF-8 and that encodes is decoded to itself, field for
  field, from its bytes and from any longer buffer that starts with them.
\<close>

theorem smartpkg_roundtrip:
  assumes "pkg_encode p = Inr bs" "wf_pkg p"
  shows "pkg_decode (bs @ rest) = Inr p"
proof -
  from assms(1) have "encodable (pkg_root p)" "bs = wire (pkg_root p)"
    by (simp_all add: pkg_encode_def encode_Inr_iff)
  with assms(2) have "decode (bs @ rest) = Inr (pkg_root p)"
    by (simp add: decode_wire pkg_root_shape)
  then show ?thesis by (simp add: pkg_decode_def pkg_of_root)
qed

theorem smartpkg_roundtrip_witness:
  "\<exists>bs. pkg_encode (pkg_new [0x61] [0x31] [] [0x7F]) = Inr bs
     \<and> pkg_decode bs = Inr (pkg_new [0x61] [0x31] [] [0x7F])"
proof -
  let ?p = "pkg_new [0x61] [0x31] [] [0x7F]"
  have enc: "pkg_encode ?p = Inr (wire (pkg_root ?p))"
    unfolding pkg_encode_def
    by (rule encode_eq) (simp add: pkg_root_def pkg_manifest_def pkg_new_def ascii_def)
  have "wf_pkg ?p" by (simp add: wf_pkg_def pkg_new_def)
  from smartpkg_roundtrip [OF enc this, of "[]"] enc show ?thesis by auto
qed

end
