(* ===== verification/Fs_Metadata.thy ===== *)
theory Fs_Metadata
  imports Pack_Encode
begin

text \<open>
  File categories, compression methods and the metadata record of SmartFS
  (\<open>kernel/src/smartfs/metadata.rs\<close>), the magic-byte and extension tests of the classifier
  (\<open>kernel/src/smartfs/classify.rs\<close>), and the SmartPack form of the metadata. A Rust string is
  its byte sequence; the float of \<open>ai_confidence\<close> is its bit pattern.
\<close>

section \<open>Categories and methods\<close>

datatype file_category =
  Text | SourceCode | Config | BinaryFile | Image | Archive | Data | Unknown

fun category_as_str :: "file_category \<Rightarrow> string" where
  "category_as_str Text = ''text''"
| "category_as_str SourceCode = ''source''"
| "category_as_str Config = ''config''"
| "category_as_str BinaryFile = ''binary''"
| "category_as_str Image = ''image''"
| "category_as_str Archive = ''archive''"
| "category_as_str Data = ''data''"
| "category_as_str Unknown = ''unknown''"

definition category_from_str :: "string \<Rightarrow> file_category" where
  "category_from_str s =
     (if s = ''text'' then Text
      else if s = ''source'' then SourceCode
      else if s = ''config'' then Config
      else if s = ''binary'' then BinaryFile
      else if s = ''image'' then Image
      else if s = ''archive'' then Archive
      else if s = ''data'' then Data
      else Unknown)"

datatype compression_method = NoCompression | Rle | Lz4Simple

fun method_as_str :: "compression_method \<Rightarrow> string" where
  "method_as_str NoCompression = ''none''"
| "method_as_str Rle = ''rle''"
| "method_as_str Lz4Simple = ''lz4''"

section \<open>Metadata\<close>

record smart_metadata =
  meta_category :: file_category
  meta_compression :: compression_method
  meta_original_size :: nat
  meta_compressed_size :: nat
  meta_chunk_count :: nat
  meta_chunk_hashes :: "u32 list"
  meta_tags :: "bytes list"
  meta_ai_confidence :: "u32 option"

definition to_smartpack :: "smart_metadata \<Rightarrow> pack_value" where
  "to_smartpack m = Map
     ([(String (ascii ''category''), String (ascii (category_as_str (meta_category m)))),
       (String (ascii ''compression''), String (ascii (method_as_str (meta_compression m)))),
       (String (ascii ''original_size''), UInt32 (of_nat (meta_original_size m))),
       (String (ascii ''compressed_size''), UInt32 (of_nat (meta_compressed_size m))),
       (String (ascii ''chunks''), UInt32 (of_nat (meta_chunk_count m)))]
      @ (case meta_ai_confidence m of
           Some conf \<Rightarrow> [(String (ascii ''ai_confidence''), Float32 conf)]
         | None \<Rightarrow> []))"

section \<open>Magic bytes and extensions\<close>

definition check_magic_bytes :: "bytes \<Rightarrow> file_category option" where
  "check_magic_bytes data =
     (if length data < 4 then None
      else
        (let magic4 = take 4 data; magic2 = take 2 data in
         if magic4 = 0x89 # ascii ''PNG'' then Some Image
         else if magic2 = [0xFF, 0xD8] then Some Image
         else if magic4 = ascii ''GIF8'' then Some Image
         else if magic4 = ascii ''BM'' @ [0, 0] \<or> magic2 = ascii ''BM'' \<and> 14 < length data
         then Some Image
         else if magic4 = ascii ''PK'' @ [0x03, 0x04] then Some Archive
         else if magic4 = [0x1F, 0x8B, 0x08, 0x00] then Some Archive
         else if take (min 6 (length data)) data = ascii ''7z'' @ [0xBC, 0xAF, 0x27, 0x1C]
         then Some Archive
         else if magic4 = 0x7F # ascii ''ELF'' then Some BinaryFile
         else if magic2 = ascii ''MZ'' then Some BinaryFile
         else if magic4 = ascii ''%PDF'' then Some Data
         else if magic2 = [0x53, 0x50] then Some Data
         else if magic2 = ascii ''#!'' then Some SourceCode
         else None))"

text \<open>\<open>filename.rsplit('.').next()\<close>: the part after the last dot, the whole name without one.\<close>

definition rsplit_next :: "char \<Rightarrow> string \<Rightarrow> string" where
  "rsplit_next sep s = rev (takeWhile (\<lambda>c. c \<noteq> sep) (rev s))"

definition check_extension :: "string \<Rightarrow> file_category option" where
  "check_extension filename =
     (let ext = rsplit_next (CHR ''.'') filename in
      if ext \<in> set [''rs'', ''c'', ''cpp'', ''h'', ''py'', ''js'', ''ts'', ''java'', ''go'', ''asm'',
                    ''sh'', ''rb''] then Some SourceCode
      else if ext \<in> set [''toml'', ''yaml'', ''yml'', ''json'', ''xml'', ''ini'', ''cfg'', ''conf'',
                         ''sp''] then Some Config
      else if ext \<in> set [''txt'', ''md'', ''log'', ''csv'', ''readme''] then Some Text
      else if ext \<in> set [''png'', ''jpg'', ''jpeg'', ''gif'', ''bmp'', ''ico'', ''svg'', ''webp'']
      then Some Image
      else if ext \<in> set [''zip'', ''tar'', ''gz'', ''bz2'', ''xz'', ''7z'', ''rar''] then Some Archive
      else if ext \<in> set [''exe'', ''elf'', ''bin'', ''so'', ''dll'', ''o'', ''obj'']
      then Some BinaryFile
      else None)"

section \<open>Lemmas\<close>

lemma category_roundtrip: "category_from_str (category_as_str c) = c"
  by (cases c) (simp_all add: category_from_str_def)

lemma rsplit_next_append:
  "sep \<notin> set ext \<Longrightarrow> rsplit_next sep (stem @ sep # ext) = ext"
  unfolding rsplit_next_def by (simp, subst takeWhile_append2) auto

end
