(* ===== verification/Fs_Compression.thy ===== *)
theory Fs_Compression
  imports Fs_Metadata
begin

text \<open>
  The SmartFS compressors (\<open>kernel/src/smartfs/compression.rs\<close>): run-length encoding and the
  LZ4-like scheme. The loops run over indices as in the source; errors are the messages of
  the source. A compressor and its decompressor meet the contract of the locale \<open>compressor\<close>:
  decompression returns what was compressed.
\<close>

section \<open>Run-length encoding\<close>

function count_run :: "bytes \<Rightarrow> nat \<Rightarrow> u8 \<Rightarrow> nat \<Rightarrow> nat" where
  "count_run data i byte run_len =
     (if i + run_len < length data \<and> data ! (i + run_len) = byte \<and> run_len < 65535
      then count_run data i byte (run_len + 1) else run_len)"
  by pat_completeness auto
termination
  by (relation "measure (\<lambda>(data, i, byte, run_len). 65535 - run_len)") auto

declare count_run.simps [simp del]

lemma count_run_ge: "run_len \<le> count_run data i byte run_len"
  by (induction data i byte run_len rule: count_run.induct) (subst count_run.simps, auto)

function rle_compress_loop :: "bytes \<Rightarrow> nat \<Rightarrow> bytes \<Rightarrow> bytes" where
  "rle_compress_loop data i out =
     (if i < length data then
        (let byte = data ! i; run_len = count_run data i byte 1 in
         if 4 \<le> run_len then
           rle_compress_loop data (i + run_len)
             (out @ [0xFF, byte, of_nat (drop_bit 8 run_len), of_nat (run_len AND 0xFF)])
         else if byte = 0xFF then rle_compress_loop data (i + 1) (out @ [0xFF, 0xFF, 0x00, 0x01])
         else rle_compress_loop data (i + 1) (out @ [byte]))
      else out)"
  by pat_completeness auto
termination
  by (relation "measure (\<lambda>(data, i, out). length data - i)") auto

declare rle_compress_loop.simps [simp del]

definition rle_compress :: "bytes \<Rightarrow> bytes" where
  "rle_compress data = rle_compress_loop data 0 []"

function rle_decompress_loop :: "bytes \<Rightarrow> nat \<Rightarrow> nat \<Rightarrow> bytes \<Rightarrow> string + bytes" where
  "rle_decompress_loop data max_size i out =
     (if i < length data then
        (if data ! i = 0xFF then
           (if length data \<le> i + 3 then Inl ''Truncated RLE sequence''
            else
              (let byte = data ! (i + 1);
                   count = push_bit 8 (unat (data ! (i + 2))) OR unat (data ! (i + 3)) in
               if max_size < length out + count then Inl ''RLE decompression overflow''
               else
                 (let out = out @ replicate count byte in
                  if max_size < length out then Inl ''RLE decompression overflow''
                  else rle_decompress_loop data max_size (i + 4) out)))
         else
           (let out = out @ [data ! i] in
            if max_size < length out then Inl ''RLE decompression overflow''
            else rle_decompress_loop data max_size (i + 1) out))
      else Inr out)"
  by pat_completeness auto
termination
  by (relation "measure (\<lambda>(data, max_size, i, out). length data - i)") auto

declare rle_decompress_loop.simps [simp del]

definition rle_decompress :: "bytes \<Rightarrow> nat \<Rightarrow> string + bytes" where
  "rle_decompress data max_size = rle_decompress_loop data max_size 0 []"

section \<open>LZ4-simple\<close>

definition HASH_TABLE_SIZE :: nat where
  "HASH_TABLE_SIZE = 4096"

definition MIN_MATCH :: nat where
  "MIN_MATCH = 4"

definition MAX_OFFSET :: nat where
  "MAX_OFFSET = 65535"

text \<open>
  The extension bytes of a length. The loop of the source pushes the minimum of the remainder
  and 255 until a byte below 255 was pushed.
\<close>

function ext_bytes :: "nat \<Rightarrow> bytes" where
  "ext_bytes remaining =
     (let extra = min remaining 255 in
      of_nat extra # (if extra < 255 then [] else ext_bytes (remaining - extra)))"
  by pat_completeness auto
termination
  by (relation "measure id") auto

declare ext_bytes.simps [simp del]

definition emit_sequence :: "bytes \<Rightarrow> bytes \<Rightarrow> nat \<Rightarrow> nat \<Rightarrow> nat \<Rightarrow> bytes" where
  "emit_sequence out literals lit_len match_len offset =
     (let lit_nibble = (if 15 \<le> lit_len then 15 else of_nat lit_len) :: u8;
          match_nibble =
            (if match_len = 0 then 0
             else (let ml = match_len - MIN_MATCH in if 15 \<le> ml then 15 else of_nat ml)) :: u8;
          token = push_bit 4 lit_nibble OR match_nibble;
          out = out @ [token];
          out = (if 15 \<le> lit_len then out @ ext_bytes (lit_len - 15) else out);
          out = out @ literals
      in if 0 < match_len then
           (let out = out @ [of_nat (offset AND 0xFF), of_nat (drop_bit 8 offset AND 0xFF)] in
            if 15 \<le> match_len - MIN_MATCH then out @ ext_bytes (match_len - MIN_MATCH - 15)
            else out)
         else out)"

definition encode_literals_only :: "bytes \<Rightarrow> bytes" where
  "encode_literals_only input = emit_sequence [] input (length input) 0 0"

text \<open>\<open>hash4\<close> of the four bytes at a position; the caller checks that they exist.\<close>

definition hash4 :: "bytes \<Rightarrow> nat \<Rightarrow> nat" where
  "hash4 data pos =
     (let v = (ucast (data ! pos) :: u32)
              OR push_bit 8 (ucast (data ! (pos + 1)))
              OR push_bit 16 (ucast (data ! (pos + 2)))
              OR push_bit 24 (ucast (data ! (pos + 3)))
      in unat (drop_bit 20 (v * 2654435761)))"

function extend_match :: "bytes \<Rightarrow> nat \<Rightarrow> nat \<Rightarrow> nat \<Rightarrow> nat" where
  "extend_match input pos candidate match_len =
     (if pos + match_len < length input \<and> candidate + match_len < length input
         \<and> input ! (candidate + match_len) = input ! (pos + match_len) \<and> match_len < 65535
      then extend_match input pos candidate (match_len + 1) else match_len)"
  by pat_completeness auto
termination
  by (relation "measure (\<lambda>(input, pos, candidate, match_len). 65535 - match_len)") auto

declare extend_match.simps [simp del]

lemma extend_match_ge: "match_len \<le> extend_match input pos candidate match_len"
  by (induction input pos candidate match_len rule: extend_match.induct)
    (subst extend_match.simps, auto)

function lz4_compress_loop ::
  "bytes \<Rightarrow> u32 list \<Rightarrow> nat \<Rightarrow> nat \<Rightarrow> bytes \<Rightarrow> nat \<times> bytes" where
  "lz4_compress_loop input hash_table anchor pos out =
     (if pos + MIN_MATCH \<le> length input then
        (let h = hash4 input pos mod HASH_TABLE_SIZE;
             candidate = unat (hash_table ! h);
             hash_table = hash_table[h := of_nat pos];
             offset = pos - candidate in
         if candidate < pos \<and> 0 < offset \<and> offset \<le> MAX_OFFSET
            \<and> pos + MIN_MATCH \<le> length input \<and> candidate + MIN_MATCH \<le> length input
            \<and> subslice candidate MIN_MATCH input = subslice pos MIN_MATCH input
         then
           (let match_len = extend_match input pos candidate MIN_MATCH;
                lit_len = pos - anchor;
                out = emit_sequence out (subslice anchor lit_len input) lit_len match_len offset
            in lz4_compress_loop input hash_table (pos + match_len) (pos + match_len) out)
         else lz4_compress_loop input hash_table anchor (pos + 1) out)
      else (anchor, out))"
  by pat_completeness auto
termination
proof (relation "measure (\<lambda>(input, hash_table, anchor, pos, out). length input - pos)", goal_cases)
  case (2 input hash_table anchor pos out h candidate ht offset match_len lit_len out')
  then have "0 < match_len"
    using extend_match_ge [of MIN_MATCH input pos candidate] by (simp add: MIN_MATCH_def)
  with 2 show ?case by (simp add: MIN_MATCH_def)
qed (auto simp: MIN_MATCH_def)

declare lz4_compress_loop.simps [simp del]

definition lz4_simple_compress :: "bytes \<Rightarrow> bytes" where
  "lz4_simple_compress input =
     (if length input < MIN_MATCH then encode_literals_only input
      else
        (let (anchor, out) = lz4_compress_loop input (replicate HASH_TABLE_SIZE 0) 0 0 [];
             out =
               (if anchor < length input then
                  (let remaining = drop anchor input in
                   emit_sequence out remaining (length remaining) 0 0)
                else out)
         in if length input \<le> length out then encode_literals_only input else out))"

text \<open>The extended length of a sequence: bytes are added until one is below 255.\<close>

function read_ext :: "string \<Rightarrow> bytes \<Rightarrow> nat \<Rightarrow> nat \<Rightarrow> string + (nat \<times> nat)" where
  "read_ext err data pos len =
     (if length data \<le> pos then Inl err
      else
        (let extra = unat (data ! pos); len = len + extra in
         if extra < 255 then Inr (pos + 1, len) else read_ext err data (pos + 1) len))"
  by pat_completeness auto
termination
  by (relation "measure (\<lambda>(err, data, pos, len). length data - pos)") auto

declare read_ext.simps [simp del]

lemma read_ext_pos: "read_ext err data pos len = Inr (pos', len') \<Longrightarrow> pos < pos'"
proof (induction err data pos len rule: read_ext.induct)
  case (1 err data pos len)
  then show ?case
    using "1.IH" [OF _ refl refl]
    by (auto simp: read_ext.simps [of err data pos len] Let_def split: if_splits dest: Suc_lessD)
qed

primrec copy_match :: "nat \<Rightarrow> nat \<Rightarrow> bytes \<Rightarrow> bytes" where
  "copy_match match_start 0 out = out"
| "copy_match match_start (Suc n) out =
     copy_match (match_start + 1) n (out @ [out ! match_start])"

function lz4_decompress_loop :: "bytes \<Rightarrow> nat \<Rightarrow> nat \<Rightarrow> bytes \<Rightarrow> string + bytes" where
  "lz4_decompress_loop data max_size pos out =
     (if pos < length data then
        (if max_size \<le> length out then Inr out
         else
           (let token = data ! pos;
                lit_len = unat (drop_bit 4 token AND 0x0F) in
            case (if lit_len = 15 then read_ext ''Truncated LZ4 literal length'' data (pos + 1) lit_len
                  else Inr (pos + 1, lit_len)) of
              Inl err \<Rightarrow> Inl err
            | Inr (pos, lit_len) \<Rightarrow>
                (if length data < pos + lit_len then Inl ''Truncated LZ4 literals''
                 else
                   (let out = out @ subslice pos lit_len data; pos = pos + lit_len in
                    if length data \<le> pos then Inr out
                    else if length data < pos + 2 then Inl ''Truncated LZ4 offset''
                    else
                      (let offset = unat (data ! pos) OR push_bit 8 (unat (data ! (pos + 1)));
                           pos = pos + 2 in
                       if offset = 0 then Inl ''Invalid LZ4 zero offset''
                       else
                         (let match_len = unat (token AND 0x0F) + MIN_MATCH in
                          case (if token AND 0x0F = 15
                                then read_ext ''Truncated LZ4 match length'' data pos match_len
                                else Inr (pos, match_len)) of
                            Inl err \<Rightarrow> Inl err
                          | Inr (pos, match_len) \<Rightarrow>
                              (if length out < offset then Inl ''LZ4 offset beyond output buffer''
                               else lz4_decompress_loop data max_size pos
                                      (copy_match (length out - offset) match_len out))))))))
      else Inr out)"
  by pat_completeness auto
termination
  by (relation "measure (\<lambda>(data, max_size, pos, out). length data - pos)")
    (auto split: if_splits dest!: read_ext_pos)

declare lz4_decompress_loop.simps [simp del]

definition lz4_simple_decompress :: "bytes \<Rightarrow> nat \<Rightarrow> string + bytes" where
  "lz4_simple_decompress data max_size = lz4_decompress_loop data max_size 0 []"

section \<open>Method selection and dispatch\<close>

text \<open>
  The loop of \<open>has_long_runs\<close> over the indices of the sample; the pair is
  \<open>(max_run, current_run)\<close>. A sample has at most 256 bytes, so the counters do not wrap.
\<close>

definition long_runs_step :: "bytes \<Rightarrow> nat \<Rightarrow> nat \<times> nat \<Rightarrow> nat \<times> nat" where
  "long_runs_step sample i = (\<lambda>(max_run, current_run).
     if sample ! i = sample ! (i - 1)
     then (max max_run (current_run + 1), current_run + 1)
     else (max_run, 1))"

definition has_long_runs :: "bytes \<Rightarrow> bool" where
  "has_long_runs data =
     (let sample = take (min (length data) 256) data;
          (max_run, current_run) = fold (long_runs_step sample) [1..<length sample] (0, 1)
      in 8 \<le> max_run)"

text \<open>
  \<open>high_entropy\<close> stands for the floating-point test \<open>quick_entropy(data) > 7.0\<close>.
\<close>

fun select_compression ::
  "(bytes \<Rightarrow> bool) \<Rightarrow> bytes \<Rightarrow> file_category \<Rightarrow> compression_method" where
  "select_compression high_entropy data cat =
     (if length data < 64 then NoCompression
      else
        (case cat of
           Image \<Rightarrow> NoCompression
         | Archive \<Rightarrow> NoCompression
         | Text \<Rightarrow> Lz4Simple
         | SourceCode \<Rightarrow> Lz4Simple
         | Config \<Rightarrow> Lz4Simple
         | BinaryFile \<Rightarrow> if has_long_runs data then Rle else Lz4Simple
         | Data \<Rightarrow> if has_long_runs data then Rle else Lz4Simple
         | Unknown \<Rightarrow> if high_entropy data then NoCompression else Lz4Simple))"

fun compress :: "bytes \<Rightarrow> compression_method \<Rightarrow> bytes" where
  "compress data NoCompression = data"
| "compress data Rle = rle_compress data"
| "compress data Lz4Simple = lz4_simple_compress data"

fun decompress :: "bytes \<Rightarrow> compression_method \<Rightarrow> nat \<Rightarrow> string + bytes" where
  "decompress data NoCompression original_size = Inr data"
| "decompress data Rle original_size = rle_decompress data original_size"
| "decompress data Lz4Simple original_size = lz4_simple_decompress data original_size"

section \<open>Run-length round trip\<close>

lemma count_run_props:
  assumes "i + run_len \<le> length data" "run_len \<le> 65535"
    "\<forall>j<run_len. data ! (i + j) = byte"
  shows "i + count_run data i byte run_len \<le> length data
    \<and> count_run data i byte run_len \<le> 65535
    \<and> (\<forall>j<count_run data i byte run_len. data ! (i + j) = byte)"
  using assms
proof (induction data i byte run_len rule: count_run.induct)
  case (1 data i byte run_len)
  show ?case
  proof (cases "i + run_len < length data \<and> data ! (i + run_len) = byte \<and> run_len < 65535")
    case True
    then have "count_run data i byte run_len = count_run data i byte (run_len + 1)"
      by (simp add: count_run.simps [of data i byte run_len])
    moreover have "\<forall>j<run_len + 1. data ! (i + j) = byte"
      using True "1.prems"(3) by (simp add: less_Suc_eq)
    ultimately show ?thesis using "1.IH" [OF True] True by simp
  next
    case False
    then have "count_run data i byte run_len = run_len"
      by (subst count_run.simps) argo
    with "1.prems" show ?thesis by simp
  qed
qed

lemma take_run:
  assumes "i + n \<le> length data" "\<forall>j<n. data ! (i + j) = byte"
  shows "take i data @ replicate n byte = take (i + n) data"
proof (rule nth_equalityI)
  fix k assume "k < length (take i data @ replicate n byte)"
  then show "(take i data @ replicate n byte) ! k = take (i + n) data ! k"
    using assms(1) assms(2) [rule_format, of "k - i"] by (auto simp: nth_append)
qed (use assms(1) in simp)

lemma rle_compress_done: "length data \<le> i \<Longrightarrow> rle_compress_loop data i out = out"
  by (simp add: rle_compress_loop.simps [of data i out])

lemma rle_compress_run:
  "i < length data \<Longrightarrow> n = count_run data i (data ! i) 1 \<Longrightarrow> 4 \<le> n \<Longrightarrow>
   rle_compress_loop data i out = rle_compress_loop data (i + n)
     (out @ [0xFF, data ! i, of_nat (drop_bit 8 n), of_nat (n AND 0xFF)])"
  by (simp add: rle_compress_loop.simps [of data i out] Let_def)

lemma rle_compress_escape:
  "i < length data \<Longrightarrow> \<not> 4 \<le> count_run data i (data ! i) 1 \<Longrightarrow> data ! i = 0xFF \<Longrightarrow>
   rle_compress_loop data i out = rle_compress_loop data (i + 1) (out @ [0xFF, 0xFF, 0x00, 0x01])"
  by (simp add: rle_compress_loop.simps [of data i out] Let_def)

lemma rle_compress_literal:
  "i < length data \<Longrightarrow> \<not> 4 \<le> count_run data i (data ! i) 1 \<Longrightarrow> data ! i \<noteq> 0xFF \<Longrightarrow>
   rle_compress_loop data i out = rle_compress_loop data (i + 1) (out @ [data ! i])"
  by (simp add: rle_compress_loop.simps [of data i out] Let_def)

lemma rle_compress_prefix: "\<exists>t. rle_compress_loop data i out = out @ t"
proof (induction data i out rule: rle_compress_loop.induct)
  case (1 data i out)
  let ?n = "count_run data i (data ! i) 1"
  note IH = "1.IH" [OF _ refl refl]
  consider "length data \<le> i" | "i < length data" "4 \<le> ?n"
    | "i < length data" "\<not> 4 \<le> ?n" "data ! i = 0xFF"
    | "i < length data" "\<not> 4 \<le> ?n" "data ! i \<noteq> 0xFF" by linarith
  then show ?case
  proof cases
    case 1 then show ?thesis by (simp add: rle_compress_done)
  next
    case 2
    show ?thesis using IH(1) [OF 2] unfolding rle_compress_run [OF 2(1) refl 2(2)] by auto
  next
    case 3
    show ?thesis using IH(2) [OF 3] unfolding rle_compress_escape [OF 3] by auto
  next
    case 4
    show ?thesis using IH(3) [OF 4] unfolding rle_compress_literal [OF 4] by auto
  qed
qed

lemma nat_bytes16:
  assumes "n < 65536"
  shows "push_bit 8 (unat (of_nat (drop_bit 8 n) :: u8)) OR unat (of_nat (n AND 0xFF) :: u8) = n"
proof -
  have low: "n AND 0xFF = take_bit 8 n"
    by (simp add: take_bit_eq_mask mask_eq_exp_minus_1)
  have "push_bit 8 (drop_bit 8 n) OR take_bit 8 n = n"
    by (rule bit_eqI) (auto simp: bit_simps)
  moreover have "drop_bit 8 n < 256" "take_bit 8 n < 256"
    using assms by (simp_all add: drop_bit_eq_div take_bit_eq_mod)
  ultimately show ?thesis unfolding low by (simp del: push_bit_of_nat of_nat_take_bit of_nat_drop_bit)
qed

lemma rle_step_run:
  assumes "n < 65536" "length acc + n \<le> mx"
  shows "rle_decompress_loop
      (out @ [0xFF, byte, of_nat (drop_bit 8 n), of_nat (n AND 0xFF)] @ t) mx (length out) acc =
    rle_decompress_loop
      (out @ [0xFF, byte, of_nat (drop_bit 8 n), of_nat (n AND 0xFF)] @ t) mx (length out + 4)
      (acc @ replicate n byte)"
  using assms
  by (subst rle_decompress_loop.simps) (simp add: nth_append nat_bytes16 Let_def)

lemma rle_step_literal:
  assumes "byte \<noteq> 0xFF" "length acc < mx"
  shows "rle_decompress_loop (out @ [byte] @ t) mx (length out) acc =
    rle_decompress_loop (out @ [byte] @ t) mx (length out + 1) (acc @ [byte])"
  using assms by (subst rle_decompress_loop.simps) (simp add: nth_append)

lemma rle_loop_inverse:
  assumes "i \<le> length data" "length data \<le> mx"
  shows "rle_decompress_loop (rle_compress_loop data i out) mx (length out) (take i data) = Inr data"
  using assms
proof (induction data i out rule: rle_compress_loop.induct)
  case (1 data i out)
  show ?case
  proof (cases "i < length data")
    case False
    with "1.prems" have "i = length data" by simp
    then show ?thesis
      by (simp add: rle_compress_done rle_decompress_loop.simps [of out mx "length out" data])
  next
    case True
    let ?b = "data ! i" let ?n = "count_run data i ?b 1"
    have run: "i + ?n \<le> length data" "?n \<le> 65535" "\<forall>j<?n. data ! (i + j) = ?b"
      using count_run_props [of i 1 data ?b] True by auto
    note IH = "1.IH" [OF True refl refl]
    consider "4 \<le> ?n" | "\<not> 4 \<le> ?n" "?b = 0xFF" | "\<not> 4 \<le> ?n" "?b \<noteq> 0xFF" by blast
    then show ?thesis
    proof cases
      case 1
      let ?tok = "[0xFF, ?b, of_nat (drop_bit 8 ?n), of_nat (?n AND 0xFF)]"
      have eq: "rle_compress_loop data i out = rle_compress_loop data (i + ?n) (out @ ?tok)"
        using True 1 by (rule rle_compress_run [OF _ refl])
      obtain t where t: "rle_compress_loop data (i + ?n) (out @ ?tok) = out @ ?tok @ t"
        using rle_compress_prefix [of data "i + ?n" "out @ ?tok"] by auto
      have "rle_decompress_loop (out @ ?tok @ t) mx (length out) (take i data)
          = rle_decompress_loop (out @ ?tok @ t) mx (length out + 4) (take (i + ?n) data)"
        using rle_step_run [of ?n "take i data" mx out ?b t] run \<open>length data \<le> mx\<close>
        by (simp add: take_run)
      then show ?thesis using IH(1) [OF 1] run 1 t eq \<open>length data \<le> mx\<close> by (simp add: Suc4)
    next
      case 2
      let ?tok = "[0xFF, 0xFF, 0x00, 0x01] :: bytes"
      have eq: "rle_compress_loop data i out = rle_compress_loop data (i + 1) (out @ ?tok)"
        using True 2 by (rule rle_compress_escape)
      obtain t where t: "rle_compress_loop data (i + 1) (out @ ?tok) = out @ ?tok @ t"
        using rle_compress_prefix [of data "i + 1" "out @ ?tok"] by auto
      have "rle_decompress_loop (out @ ?tok @ t) mx (length out) (take i data)
          = rle_decompress_loop (out @ ?tok @ t) mx (length out + 4) (take (i + 1) data)"
        using rle_step_run [of 1 "take i data" mx out "0xFF" t] True 2 \<open>length data \<le> mx\<close>
        by (simp add: take_Suc_conv_app_nth)
      then show ?thesis using IH(2) [OF 2] True t eq \<open>length data \<le> mx\<close> by (simp add: Suc4)
    next
      case 3
      have eq: "rle_compress_loop data i out = rle_compress_loop data (i + 1) (out @ [?b])"
        using True 3 by (rule rle_compress_literal)
      obtain t where t: "rle_compress_loop data (i + 1) (out @ [?b]) = out @ [?b] @ t"
        using rle_compress_prefix [of data "i + 1" "out @ [?b]"] by auto
      have "rle_decompress_loop (out @ [?b] @ t) mx (length out) (take i data)
          = rle_decompress_loop (out @ [?b] @ t) mx (length out + 1) (take (i + 1) data)"
        using rle_step_literal [of ?b "take i data" mx out t] True 3 \<open>length data \<le> mx\<close>
        by (simp add: take_Suc_conv_app_nth)
      then show ?thesis using IH(3) [OF 3] True t eq \<open>length data \<le> mx\<close> by simp
    qed
  qed
qed
lemma rle_inverse: "length data \<le> mx \<Longrightarrow> rle_decompress (rle_compress data) mx = Inr data"
  using rle_loop_inverse [of 0 data mx "[]"] by (simp add: rle_compress_def rle_decompress_def)

section \<open>LZ4 round trip\<close>

lemma extend_match_props:
  assumes "pos + match_len \<le> length input" "candidate < pos" "match_len \<le> 65535"
    "\<forall>j<match_len. input ! (candidate + j) = input ! (pos + j)"
  shows "pos + extend_match input pos candidate match_len \<le> length input
    \<and> extend_match input pos candidate match_len \<le> 65535
    \<and> (\<forall>j<extend_match input pos candidate match_len.
         input ! (candidate + j) = input ! (pos + j))"
  using assms
proof (induction input pos candidate match_len rule: extend_match.induct)
  case (1 input pos candidate match_len)
  show ?case
  proof (cases "pos + match_len < length input \<and> candidate + match_len < length input
      \<and> input ! (candidate + match_len) = input ! (pos + match_len) \<and> match_len < 65535")
    case True
    then have "extend_match input pos candidate match_len
        = extend_match input pos candidate (match_len + 1)"
      by (simp add: extend_match.simps [of input pos candidate match_len])
    moreover have "\<forall>j<match_len + 1. input ! (candidate + j) = input ! (pos + j)"
      using True "1.prems"(4) by (simp add: less_Suc_eq)
    ultimately show ?thesis using "1.IH" [OF True] True "1.prems" by simp
  next
    case False
    then have "extend_match input pos candidate match_len = match_len"
      by (subst extend_match.simps) argo
    with "1.prems" show ?thesis by simp
  qed
qed

lemma copy_match_take:
  assumes "s < p" "p + n \<le> length xs" "\<forall>j<n. xs ! (s + j) = xs ! (p + j)"
  shows "copy_match s n (take p xs) = take (p + n) xs"
  using assms
proof (induction n arbitrary: s p)
  case 0
  then show ?case by simp
next
  case (Suc n)
  have "xs ! s = xs ! p" using Suc.prems(3) by auto
  then have "take p xs @ [take p xs ! s] = take (Suc p) xs"
    using Suc.prems(1,2) by (simp add: take_Suc_conv_app_nth)
  moreover have "\<forall>j<n. xs ! (Suc s + j) = xs ! (Suc p + j)"
    using Suc.prems(3) by auto
  ultimately show ?case using Suc.IH [of "Suc s" "Suc p"] Suc.prems(1,2) by simp
qed

lemma read_ext_inverse:
  "read_ext err (pre @ ext_bytes r @ t) (length pre) len
    = Inr (length pre + length (ext_bytes r), len + r)"
proof (induction r arbitrary: pre len rule: ext_bytes.induct)
  case (1 r)
  show ?case
  proof (cases "r < 255")
    case True
    then have "ext_bytes r = [of_nat r]"
      by (simp add: ext_bytes.simps [of r])
    with True show ?thesis
      by (simp add: read_ext.simps [of err "pre @ of_nat r # t"])
  next
    case False
    then have mn: "min r 255 = 255" by simp
    with False have eq: "ext_bytes r = 255 # ext_bytes (r - 255)"
      by (simp add: ext_bytes.simps [of r])
    have "read_ext err ((pre @ [255]) @ ext_bytes (r - 255) @ t) (length (pre @ [255])) (len + 255)
      = Inr (length (pre @ [255]) + length (ext_bytes (r - 255)), (len + 255) + (r - 255))"
      using "1.IH" [OF refl, of "pre @ [255]" "len + 255"] False unfolding mn by simp
    then show ?thesis using False
      unfolding eq by (subst read_ext.simps) simp
  qed
qed

lemma token_nibbles:
  assumes "a < 16" "b < (16 :: u8)"
  shows "drop_bit 4 (push_bit 4 a OR b) AND 15 = a" "(push_bit 4 a OR b) AND 15 = b"
proof -
  have m: "(15 :: u8) = mask 4" by (simp add: mask_eq_exp_minus_1)
  have ab: "take_bit 4 a = a" "take_bit 4 b = b"
    using assms
    by (simp_all add: word_unat_eq_iff unsigned_take_bit_eq take_bit_nat_eq_self word_less_nat_alt)
  show "drop_bit 4 (push_bit 4 a OR b) AND 15 = a"
    unfolding m take_bit_eq_mask [symmetric]
    by (subst ab(1) [symmetric], subst ab(2) [symmetric], rule bit_word_eqI)
      (auto simp: bit_simps)
  show "(push_bit 4 a OR b) AND 15 = b"
    unfolding m take_bit_eq_mask [symmetric]
    by (subst (2) ab(2) [symmetric], rule bit_word_eqI) (auto simp: bit_simps)
qed

lemma offset_bytes:
  assumes "n < 65536"
  shows "unat (of_nat (n AND 0xFF) :: u8) OR
    push_bit 8 (unat (of_nat (drop_bit 8 n AND 0xFF) :: u8)) = n"
proof -
  have "drop_bit 8 n AND 0xFF = take_bit 8 (drop_bit 8 n)"
    by (simp add: take_bit_eq_mask mask_eq_exp_minus_1)
  also have "\<dots> = drop_bit 8 n"
    using assms by (simp add: take_bit_nat_eq_self drop_bit_eq_div)
  finally have "drop_bit 8 n AND 0xFF = drop_bit 8 n" .
  then show ?thesis using nat_bytes16 [OF assms] by (simp add: or.commute)
qed

text \<open>The bytes of one sequence, and what the decoder does with them.\<close>

definition seq_bytes :: "bytes \<Rightarrow> nat \<Rightarrow> nat \<Rightarrow> bytes" where
  "seq_bytes lits m off = emit_sequence [] lits (length lits) m off"

definition lit_ext :: "nat \<Rightarrow> bytes" where
  "lit_ext n = (if 15 \<le> n then ext_bytes (n - 15) else [])"

definition seq_token :: "nat \<Rightarrow> nat \<Rightarrow> u8" where
  "seq_token n m = push_bit 4 (of_nat (min n 15)) OR of_nat (min m 15)"

lemma emit_sequence_append:
  "emit_sequence out lits (length lits) m off = out @ seq_bytes lits m off"
  by (simp add: emit_sequence_def seq_bytes_def Let_def)

lemma seq_bytes_final:
  "seq_bytes lits 0 0 = seq_token (length lits) 0 # lit_ext (length lits) @ lits"
  by (simp add: seq_bytes_def emit_sequence_def seq_token_def lit_ext_def min_def)

lemma seq_bytes_match:
  assumes "MIN_MATCH \<le> m"
  shows "seq_bytes lits m off = seq_token (length lits) (m - MIN_MATCH) # lit_ext (length lits)
    @ lits @ [of_nat (off AND 0xFF), of_nat (drop_bit 8 off AND 0xFF)] @ lit_ext (m - MIN_MATCH)"
proof -
  obtain k where "m = MIN_MATCH + k"
    using assms le_Suc_ex by blast
  then show ?thesis
    by (auto simp: seq_bytes_def emit_sequence_def seq_token_def lit_ext_def min_def MIN_MATCH_def)
qed

lemma seq_token_lit: "unat (drop_bit 4 (seq_token n m) AND 15) = min n 15"
  and seq_token_match: "unat (seq_token n m AND 15) = min m 15"
proof -
  have *: "(of_nat (min k 15) :: u8) < 16" for k :: nat
    by (simp add: word_less_nat_alt)
  show "unat (drop_bit 4 (seq_token n m) AND 15) = min n 15"
    unfolding seq_token_def token_nibbles(1) [OF * *] by simp
  show "unat (seq_token n m AND 15) = min m 15"
    unfolding seq_token_def token_nibbles(2) [OF * *] by simp
qed

lemma read_lit_ext:
  assumes "b = min n 15" "p = length pre" "q = length pre + length (lit_ext n)"
  shows "(if b = 15 then read_ext err (pre @ lit_ext n @ t) p (b + k)
          else Inr (p, b + k)) = Inr (q, n + k)"
  using assms read_ext_inverse [of err pre "n - 15" t "15 + k"]
  by (auto simp: lit_ext_def min_def split: if_splits)

lemma decode_final_seq:
  assumes "length acc < mx"
  shows "lz4_decompress_loop (pre @ seq_bytes lits 0 0) mx (length pre) acc = Inr (acc @ lits)"
proof -
  let ?tok = "seq_token (length lits) 0" let ?e = "lit_ext (length lits)"
  have data: "pre @ seq_bytes lits 0 0 = (pre @ [?tok]) @ ?e @ lits"
    by (simp add: seq_bytes_final)
  have rd: "(if unat (drop_bit 4 ?tok AND 15) = 15
      then read_ext err ((pre @ [?tok]) @ ?e @ lits) (length pre + 1) (unat (drop_bit 4 ?tok AND 15))
      else Inr (length pre + 1, unat (drop_bit 4 ?tok AND 15)))
    = Inr (length pre + 1 + length ?e, length lits)" for err
    using read_lit_ext [OF refl refl refl, of "length lits" err "pre @ [?tok]" lits 0] by (auto simp: seq_token_lit split: if_splits)
  have tok: "((pre @ [?tok]) @ ?e @ lits) ! length pre = ?tok"
    by (simp add: nth_append)
  have "subslice (length pre + 1 + length ?e) (length lits) ((pre @ [?tok]) @ ?e @ lits) = lits"
    using subslice_append_mid [of "(pre @ [?tok]) @ ?e" lits "[]"] by simp
  then show ?thesis
    unfolding data using assms
    by (subst lz4_decompress_loop.simps) (simp only: rd tok Let_def, simp)
qed

lemma decode_match_seq:
  assumes "length acc < mx" "MIN_MATCH \<le> m" "0 < off" "off \<le> MAX_OFFSET"
    "off \<le> length acc + length lits"
  shows "lz4_decompress_loop (pre @ seq_bytes lits m off @ t) mx (length pre) acc =
    lz4_decompress_loop (pre @ seq_bytes lits m off @ t) mx (length (pre @ seq_bytes lits m off))
      (copy_match (length acc + length lits - off) m (acc @ lits))"
proof -
  let ?tok = "seq_token (length lits) (m - MIN_MATCH)" let ?e = "lit_ext (length lits)"
  let ?x = "lit_ext (m - MIN_MATCH)"
  let ?o = "[of_nat (off AND 0xFF), of_nat (drop_bit 8 off AND 0xFF)] :: bytes"
  define d where "d = pre @ seq_bytes lits m off @ t"
  have d1: "d = (pre @ [?tok]) @ ?e @ lits @ ?o @ ?x @ t"
    and d2: "d = (pre @ [?tok] @ ?e @ lits @ ?o) @ ?x @ t"
    and d3: "d = (pre @ [?tok] @ ?e @ lits) @ ?o @ ?x @ t"
    and d4: "d = (pre @ [?tok] @ ?e) @ lits @ ?o @ ?x @ t"
    unfolding d_def using assms(2) by (simp_all add: seq_bytes_match)
  let ?p1 = "length pre + 1 + length ?e" let ?p2 = "?p1 + length lits"
  have rd1: "(if unat (drop_bit 4 ?tok AND 15) = 15
      then read_ext err d (length pre + 1) (unat (drop_bit 4 ?tok AND 15))
      else Inr (length pre + 1, unat (drop_bit 4 ?tok AND 15))) = Inr (?p1, length lits)" for err
    using read_lit_ext [OF refl refl refl, of "length lits" err "pre @ [?tok]" "lits @ ?o @ ?x @ t" 0]
    unfolding d1 by (auto simp: seq_token_lit split: if_splits)
  have n15: "(?tok AND 15 = 15) = (min (m - MIN_MATCH) 15 = 15)"
    using seq_token_match [of "length lits" "m - MIN_MATCH"] by (simp add: word_unat_eq_iff)
  have "(if ?tok AND 15 = 15
      then read_ext err d (?p2 + 2) (unat (?tok AND 15) + MIN_MATCH)
      else Inr (?p2 + 2, unat (?tok AND 15) + MIN_MATCH))
    = Inr (?p2 + 2 + length ?x, (m - MIN_MATCH) + MIN_MATCH)" for err
    unfolding d2 n15 seq_token_match by (rule read_lit_ext) simp_all
  then have rd2: "(if ?tok AND 15 = 15
      then read_ext err d (?p2 + 2) (unat (?tok AND 15) + MIN_MATCH)
      else Inr (?p2 + 2, unat (?tok AND 15) + MIN_MATCH)) = Inr (?p2 + 2 + length ?x, m)" for err
    using assms(2) by simp
  have tok: "d ! length pre = ?tok" by (simp add: d1 nth_append)
  have lits: "subslice ?p1 (length lits) d = lits"
    using subslice_append_mid [of "pre @ [?tok] @ ?e" lits "?o @ ?x @ t"] unfolding d4 by simp
  have off: "unat (d ! ?p2) OR push_bit 8 (unat (d ! (?p2 + 1))) = off"
    using offset_bytes [of off] assms(4) unfolding d3 by (simp add: nth_append MAX_OFFSET_def)
  have len: "length d = ?p2 + 2 + length ?x + length t" "length (pre @ seq_bytes lits m off) = ?p2 + 2 + length ?x"
    using assms(2) by (simp_all add: d1 seq_bytes_match)
  have conds: "(length pre < length d) = True" "(mx \<le> length acc) = False"
      "(length d < ?p2) = False" "(length d \<le> ?p2) = False" "(length d < ?p2 + 2) = False"
      "(off = 0) = False" "(length acc + length lits < off) = False"
    using assms by (simp_all add: len(1))
  show ?thesis
    unfolding d_def [symmetric] len(2)
    by (subst lz4_decompress_loop.simps)
      (simp only: conds rd1 rd2 tok lits off Let_def if_True if_False sum.case prod.case length_append)
qed

text \<open>The compressor's output so far decodes to the input up to the anchor.\<close>

definition lz4_decodes :: "nat \<Rightarrow> bytes \<Rightarrow> bytes \<Rightarrow> bool" where
  "lz4_decodes mx out acc \<longleftrightarrow>
     (\<forall>t. lz4_decompress_loop (out @ t) mx 0 [] = lz4_decompress_loop (out @ t) mx (length out) acc)"

definition lz4_inv :: "nat \<Rightarrow> bytes \<Rightarrow> u32 list \<Rightarrow> nat \<Rightarrow> nat \<Rightarrow> bytes \<Rightarrow> bool" where
  "lz4_inv mx input ht anchor pos out \<longleftrightarrow>
     anchor \<le> pos \<and> pos \<le> length input \<and> length ht = HASH_TABLE_SIZE
     \<and> (\<forall>h<HASH_TABLE_SIZE. unat (ht ! h) \<le> pos) \<and> lz4_decodes mx out (take anchor input)"

lemma lz4_inv_skip:
  assumes "lz4_inv mx input ht anchor pos out" "pos < length input" "length input < 2 ^ 32"
    "h < HASH_TABLE_SIZE"
  shows "lz4_inv mx input (ht[h := of_nat pos]) anchor (pos + 1) out"
  using assms unfolding lz4_inv_def by (auto simp: nth_list_update le_Suc_eq)

lemma lz4_inv_match:
  assumes inv: "lz4_inv mx input ht anchor pos out" and bounds: "length input < 2 ^ 32"
    "length input \<le> mx" "h < HASH_TABLE_SIZE" "candidate < pos" "pos - candidate \<le> MAX_OFFSET"
    "pos + MIN_MATCH \<le> length input"
    and eq: "subslice candidate MIN_MATCH input = subslice pos MIN_MATCH input"
    and m: "m = extend_match input pos candidate MIN_MATCH"
  shows "lz4_inv mx input (ht[h := of_nat pos]) (pos + m) (pos + m)
    (emit_sequence out (subslice anchor (pos - anchor) input) (pos - anchor) m (pos - candidate))"
proof -
  let ?lits = "subslice anchor (pos - anchor) input"
  have le: "anchor \<le> pos" "pos \<le> length input" using inv by (simp_all add: lz4_inv_def)
  have "input ! (candidate + j) = input ! (pos + j)" if "j < MIN_MATCH" for j
    using arg_cong [OF eq, of "\<lambda>xs. xs ! j"] that bounds(4,6) by (simp add: subslice_def)
  then have props: "pos + m \<le> length input" "m \<le> 65535"
      "\<forall>j<m. input ! (candidate + j) = input ! (pos + j)"
    unfolding m using extend_match_props [of pos MIN_MATCH input candidate] bounds(4,6)
    by (simp_all add: MIN_MATCH_def)
  have ge: "MIN_MATCH \<le> m" unfolding m by (rule extend_match_ge)
  have lits: "take anchor input @ ?lits = take pos input" "length ?lits = pos - anchor"
    using le by (simp_all add: subslice_def flip: take_add)
  have "lz4_decodes mx (out @ seq_bytes ?lits m (pos - candidate)) (take (pos + m) input)"
    using inv le lits bounds props ge decode_match_seq [of "take anchor input" mx m "pos - candidate" ?lits out]
      copy_match_take [of candidate pos m input]
    unfolding lz4_inv_def lz4_decodes_def by (simp add: MIN_MATCH_def)
  then show ?thesis
    using inv props lits bounds(1,3) emit_sequence_append [of out ?lits m "pos - candidate"]
    unfolding lz4_inv_def by (auto simp: nth_list_update)
qed

lemma lz4_loop_decodes:
  assumes "lz4_inv mx input ht anchor pos out" "length input < 2 ^ 32" "length input \<le> mx"
    "lz4_compress_loop input ht anchor pos out = (anchor', out')"
  shows "anchor' \<le> length input \<and> lz4_decodes mx out' (take anchor' input)"
  using assms
proof (induction input ht anchor pos out rule: lz4_compress_loop.induct)
  case (1 input ht anchor pos out)
  show ?case
  proof (cases "pos + MIN_MATCH \<le> length input")
    case False
    then have "lz4_compress_loop input ht anchor pos out = (anchor, out)"
      by (simp add: lz4_compress_loop.simps [of input ht anchor pos out])
    with "1.prems" show ?thesis by (simp add: lz4_inv_def)
  next
    case True
    let ?h = "hash4 input pos mod HASH_TABLE_SIZE"
    let ?c = "unat (ht ! ?h)" let ?ht = "ht[?h := of_nat pos]"
    let ?m = "extend_match input pos ?c MIN_MATCH"
    let ?out = "emit_sequence out (subslice anchor (pos - anchor) input) (pos - anchor) ?m (pos - ?c)"
    let ?hit = "?c < pos \<and> 0 < pos - ?c \<and> pos - ?c \<le> MAX_OFFSET \<and> pos + MIN_MATCH \<le> length input
      \<and> ?c + MIN_MATCH \<le> length input \<and> subslice ?c MIN_MATCH input = subslice pos MIN_MATCH input"
    have h: "?h < HASH_TABLE_SIZE" by (simp add: HASH_TABLE_SIZE_def)
    show ?thesis
    proof (cases ?hit)
      case hit: True
      then have "lz4_compress_loop input ht anchor pos out
          = lz4_compress_loop input ?ht (pos + ?m) (pos + ?m) ?out"
        using True by (simp add: lz4_compress_loop.simps [of input ht anchor pos out] Let_def)
      moreover have "lz4_inv mx input ?ht (pos + ?m) (pos + ?m) ?out"
        using lz4_inv_match [OF "1.prems"(1-3) h _ _ True _ refl] hit by blast
      ultimately show ?thesis
        using "1.IH"(1) [OF True refl refl refl refl hit refl refl refl] "1.prems" by simp
    next
      case miss: False
      then have "lz4_compress_loop input ht anchor pos out
          = lz4_compress_loop input ?ht anchor (pos + 1) out"
        using True by (simp only: lz4_compress_loop.simps [of input ht anchor pos out] Let_def if_True if_False)
      moreover have "lz4_inv mx input ?ht anchor (pos + 1) out"
        using lz4_inv_skip [OF "1.prems"(1) _ "1.prems"(2) h] True by (simp add: MIN_MATCH_def)
      ultimately show ?thesis
        using "1.IH"(2) [OF True refl refl refl refl miss] "1.prems" by simp
    qed
  qed
qed

lemma lz4_literals_only:
  "lz4_decompress_loop (encode_literals_only input) mx 0 [] = Inr input" if "length input \<le> mx"
proof (cases "mx = 0")
  case True
  with that show ?thesis
    by (subst lz4_decompress_loop.simps)
      (simp add: encode_literals_only_def emit_sequence_def)
next
  case False
  then show ?thesis
    using decode_final_seq [of "[]" mx "[]" input]
    by (simp add: encode_literals_only_def seq_bytes_def)
qed

lemma lz4_inverse:
  assumes "length input < 2 ^ 32" "length input \<le> mx"
  shows "lz4_simple_decompress (lz4_simple_compress input) mx = Inr input"
proof -
  obtain anchor out where run:
    "lz4_compress_loop input (replicate HASH_TABLE_SIZE 0) 0 0 [] = (anchor, out)" by fastforce
  have "lz4_inv mx input (replicate HASH_TABLE_SIZE 0) 0 0 []"
    by (simp add: lz4_inv_def lz4_decodes_def)
  from lz4_loop_decodes [OF this assms run]
  have dec: "anchor \<le> length input" "lz4_decodes mx out (take anchor input)" by simp_all
  define res where "res = (if anchor < length input
    then emit_sequence out (drop anchor input) (length (drop anchor input)) 0 0 else out)"
  have "lz4_decompress_loop res mx 0 [] = Inr input"
  proof (cases "anchor < length input")
    case True
    then show ?thesis
      using dec decode_final_seq [of "take anchor input" mx out "drop anchor input"] assms(2)
      unfolding res_def lz4_decodes_def emit_sequence_append by simp
  next
    case False
    then show ?thesis
      using dec spec [OF dec(2) [unfolded lz4_decodes_def], of "[]"]
      by (simp add: res_def lz4_decompress_loop.simps [of out mx "length out"])
  qed
  then show ?thesis
    using lz4_literals_only [OF assms(2)]
    by (auto simp: lz4_simple_decompress_def lz4_simple_compress_def run Let_def res_def
        split: if_splits)
qed

section \<open>The compressor contract\<close>

text \<open>
  What SmartFS needs of a compressor: with the size it recorded, decompression returns the
  input. The bound is that of the \<open>u32\<close> hash table of LZ4-simple.
\<close>

locale compressor =
  fixes comp :: "bytes \<Rightarrow> bytes" and decomp :: "bytes \<Rightarrow> nat \<Rightarrow> string + bytes"
  assumes inverse: "length xs < 2 ^ 32 \<Longrightarrow> length xs \<le> n \<Longrightarrow> decomp (comp xs) n = Inr xs"
begin

lemma comp_inj:
  assumes "length xs < 2 ^ 32" "length ys < 2 ^ 32" "comp xs = comp ys"
  shows "xs = ys"
proof -
  let ?n = "length xs + length ys"
  have "decomp (comp xs) ?n = Inr xs" "decomp (comp ys) ?n = Inr ys"
    using assms(1,2) by (auto intro: inverse)
  then have "(Inr xs :: string + bytes) = Inr ys" unfolding assms(3) by (rule subst)
  then show ?thesis by (rule Inr_inject)
qed

end

interpretation rle_codec: compressor rle_compress rle_decompress
  by unfold_locales (rule rle_inverse)

interpretation lz4_codec: compressor lz4_simple_compress lz4_simple_decompress
  by unfold_locales (rule lz4_inverse)

interpretation method_codec: compressor "\<lambda>d. compress d m" "\<lambda>d n. decompress d m n" for m
  by unfold_locales (cases m; simp add: rle_codec.inverse lz4_codec.inverse)

section \<open>Size bounds\<close>

lemma rle_decompress_bound:
  "rle_decompress_loop data mx i out = Inr res \<Longrightarrow> length out \<le> mx \<Longrightarrow> length res \<le> mx"
proof (induction data mx i out rule: rle_decompress_loop.induct)
  case (1 data mx i out)
  note IH = "1.IH"(1) [OF _ _ _ refl refl _ refl] "1.IH"(2) [OF _ _ refl]
  show ?case
    using "1.prems" IH
    by (auto simp: rle_decompress_loop.simps [of data mx i out] Let_def split: if_splits)
qed

lemma length_ext_bytes: "length (ext_bytes r) = r div 255 + 1"
proof (induction r rule: ext_bytes.induct)
  case (1 r)
  show ?case
  proof (cases "r < 255")
    case False
    then have "min r 255 = 255" by simp
    with "1.IH" [OF refl] False show ?thesis
      by (simp add: ext_bytes.simps [of r] le_div_geq)
  qed (simp add: ext_bytes.simps [of r])
qed

lemma length_encode_literals_only:
  "length (encode_literals_only input) \<le> length input + length input div 255 + 2"
proof -
  have "(length input - 15) div 255 \<le> length input div 255"
    by (rule div_le_mono) simp
  then show ?thesis
    by (simp add: encode_literals_only_def emit_sequence_def length_ext_bytes)
qed

lemma length_lz4_simple_compress:
  "length (lz4_simple_compress input) \<le> length input + length input div 255 + 2"
  using length_encode_literals_only [of input]
  by (auto simp: lz4_simple_compress_def Let_def split: prod.splits)

section \<open>Properties of the compressors\<close>

text \<open>
  C2: for every method and every file below 4 GiB, decompressing the compressed file with a size
  limit not below the original size gives the file back.
\<close>

theorem smartfs_compress_roundtrip:
  assumes "length bs < 2 ^ 32" "length bs \<le> original"
  shows "decompress (compress bs m) m original = Inr bs"
  using assms by (rule method_codec.inverse)

theorem smartfs_compress_roundtrip_witness:
  "compress [7, 7, 7, 7, 7, 7, 1, 2] Rle = [0xFF, 7, 0, 6, 1, 2]
   \<and> decompress [0xFF, 7, 0, 6, 1, 2] Rle 8 = Inr [7, 7, 7, 7, 7, 7, 1, 2]
   \<and> decompress (compress [7, 7, 7, 7, 7, 7, 1, 2] Lz4Simple) Lz4Simple 8 = Inr [7, 7, 7, 7, 7, 7, 1, 2]"
proof -
  have c: "compress [7, 7, 7, 7, 7, 7, 1, 2] Rle = [0xFF, 7, 0, 6, 1, 2]"
    by (simp add: rle_compress_def rle_compress_loop.simps count_run.simps, code_simp)
  have len: "length [7, 7, 7, 7, 7, 7, 1, 2 :: u8] < 2 ^ 32" "length [7, 7, 7, 7, 7, 7, 1, 2 :: u8] \<le> 8"
    by simp_all
  note rt = smartfs_compress_roundtrip [OF len]
  show ?thesis by (intro conjI c rt rt [of Rle, unfolded c])
qed

text \<open>
  C11: whatever the input, run-length decompression never returns more bytes than its limit.
\<close>

theorem rle_decompress_bounded:
  assumes "rle_decompress data mx = Inr res"
  shows "length res \<le> mx"
  using rle_decompress_bound [of data mx 0 "[]" res] assms by (simp add: rle_decompress_def)

theorem rle_decompress_bounded_witness: "length (replicate 5 (9 :: u8)) \<le> 6"
proof -
  have "rle_decompress [0xFF, 9, 0, 5] 6 = Inr (replicate 5 9)" by code_simp
  then show ?thesis by (rule rle_decompress_bounded)
qed

text \<open>
  C12: LZ4-simple never grows a file by more than one byte in 255 plus two: when matching does
  not pay, the compressor falls back to one run of literals.
\<close>

theorem lz4_expansion_bounded:
  "length (compress bs Lz4Simple) \<le> length bs + length bs div 255 + 2"
  using length_lz4_simple_compress by simp

text \<open>
  The limit given to LZ4-simple decompression does not bound its output: with a limit of
  one byte this input gives five, because a match is copied without a test against the limit.
\<close>

theorem lz4_limit_not_enforced:
  "lz4_simple_decompress [0x10, 0x41, 1, 0] 1 = Inr (replicate 5 0x41)"
  by code_simp

end
