(* ===== verification/Fs_Chunking.thy ===== *)
theory Fs_Chunking
  imports Fs_Compression
begin

text \<open>
  Content-defined chunking and the deduplicating chunk store
  (\<open>kernel/src/smartfs/chunking.rs\<close>). The global store is a record passed explicitly; the
  \<open>BTreeMap\<close> is a map. The contract of a store of blobs is the locale \<open>blob_store\<close>; composing
  it with a compressor gives the write path of \<open>store_file\<close>.
\<close>

section \<open>Chunks\<close>

definition MIN_CHUNK :: nat where "MIN_CHUNK = 256"

definition MAX_CHUNK :: nat where "MAX_CHUNK = 8192"

definition CHUNK_MODULUS :: u32 where "CHUNK_MODULUS = 2048"

definition CHUNK_PATTERN :: u32 where "CHUNK_PATTERN = 0"

definition WINDOW_SIZE :: nat where "WINDOW_SIZE = 32"

lemmas chunk_consts = MIN_CHUNK_def MAX_CHUNK_def CHUNK_MODULUS_def CHUNK_PATTERN_def WINDOW_SIZE_def

record chunk =
  ch_offset :: nat
  ch_length :: nat
  ch_hash :: u32

definition fnv1a :: "bytes \<Rightarrow> u32" where
  "fnv1a bs = fold (\<lambda>byte hash. (hash XOR ucast byte) * 0x01000193) bs 0x811c9dc5"

text \<open>The rolling hash after the byte at \<open>i\<close> of the chunk that begins at \<open>start\<close>.\<close>

definition roll_hash :: "bytes \<Rightarrow> nat \<Rightarrow> nat \<Rightarrow> u32 \<Rightarrow> u32" where
  "roll_hash bs start i hash =
     (let hash = hash * 31 + ucast (bs ! i); chunk_len = i - start + 1 in
      if WINDOW_SIZE < chunk_len
      then hash - ucast (bs ! (i - WINDOW_SIZE)) * 31 ^ WINDOW_SIZE
      else hash)"

function chunk_loop :: "bytes \<Rightarrow> nat \<Rightarrow> u32 \<Rightarrow> nat \<Rightarrow> chunk list \<Rightarrow> chunk list" where
  "chunk_loop bs start hash i chunks =
     (if i < length bs then
        (let hash = roll_hash bs start i hash;
             chunk_len = i - start + 1;
             at_boundary = (MIN_CHUNK \<le> chunk_len \<and> hash mod CHUNK_MODULUS = CHUNK_PATTERN);
             at_max = (MAX_CHUNK \<le> chunk_len);
             at_end = (i = length bs - 1) in
         if at_boundary \<or> at_max \<or> at_end
         then chunk_loop bs (i + 1) 0 (i + 1)
                (chunks @ [\<lparr>ch_offset = start, ch_length = chunk_len,
                            ch_hash = fnv1a (subslice start (i + 1 - start) bs)\<rparr>])
         else chunk_loop bs start hash (i + 1) chunks)
      else chunks)"
  by pat_completeness auto
termination
  by (relation "measure (\<lambda>(bs, start, hash, i, chunks). length bs - i)") auto

declare chunk_loop.simps [simp del]

definition chunk_data :: "bytes \<Rightarrow> chunk list" where
  "chunk_data bs = (if bs = [] then [] else chunk_loop bs 0 0 0 [])"

section \<open>The store\<close>

record chunk_store =
  cs_chunks :: "u32 \<rightharpoonup> bytes"
  cs_total_seen :: nat
  cs_dedup_hits :: nat

definition chunk_store_new :: chunk_store where
  "chunk_store_new = \<lparr>cs_chunks = Map.empty, cs_total_seen = 0, cs_dedup_hits = 0\<rparr>"

definition store_chunk :: "bytes \<Rightarrow> chunk \<Rightarrow> chunk_store \<Rightarrow> chunk_store" where
  "store_chunk bs c store =
     (let store = store\<lparr>cs_total_seen := cs_total_seen store + 1\<rparr> in
      if cs_chunks store (ch_hash c) \<noteq> None
      then store\<lparr>cs_dedup_hits := cs_dedup_hits store + 1\<rparr>
      else store\<lparr>cs_chunks := (cs_chunks store)
             (ch_hash c \<mapsto> subslice (ch_offset c) (ch_length c) bs)\<rparr>)"

definition store_chunks :: "chunk_store \<Rightarrow> bytes \<Rightarrow> chunk_store \<times> u32 list" where
  "store_chunks store bs =
     (let chunks = chunk_data bs in (fold (store_chunk bs) chunks store, map ch_hash chunks))"

fun reassemble_loop :: "chunk_store \<Rightarrow> u32 list \<Rightarrow> bytes \<Rightarrow> string + bytes" where
  "reassemble_loop store [] res = Inr res"
| "reassemble_loop store (hash # hashes) res =
     rbind (ok_or ''Chunk not found in store'' (cs_chunks store hash))
       (\<lambda>chunk. reassemble_loop store hashes (res @ chunk))"

definition reassemble :: "chunk_store \<Rightarrow> u32 list \<Rightarrow> string + bytes" where
  "reassemble store hashes = reassemble_loop store hashes []"

definition chunk_stats :: "chunk_store \<Rightarrow> nat \<times> nat" where
  "chunk_stats store = (card (dom (cs_chunks store)), cs_total_seen store)"

section \<open>Chunks tile the data\<close>

definition chunk_bytes :: "bytes \<Rightarrow> chunk \<Rightarrow> bytes" where
  "chunk_bytes bs c = subslice (ch_offset c) (ch_length c) bs"

text \<open>
  A chunk of a file: inside the file, hashed over its own bytes, not longer than the maximum,
  and shorter than the minimum only at the end of the file.
\<close>

definition chunk_ok :: "bytes \<Rightarrow> chunk \<Rightarrow> bool" where
  "chunk_ok bs c \<longleftrightarrow> 0 < ch_length c \<and> ch_length c \<le> MAX_CHUNK
     \<and> ch_offset c + ch_length c \<le> length bs
     \<and> (MIN_CHUNK \<le> ch_length c \<or> ch_offset c + ch_length c = length bs)
     \<and> ch_hash c = fnv1a (chunk_bytes bs c)"

definition chunk_inv :: "bytes \<Rightarrow> nat \<Rightarrow> nat \<Rightarrow> chunk list \<Rightarrow> bool" where
  "chunk_inv bs start i chunks \<longleftrightarrow>
     start \<le> i \<and> i \<le> length bs \<and> i - start < MAX_CHUNK \<and> (i = length bs \<longrightarrow> start = i)
     \<and> concat (map (chunk_bytes bs) chunks) = take start bs \<and> list_all (chunk_ok bs) chunks"

lemma chunk_inv_cut:
  assumes "chunk_inv bs start i chunks" "i < length bs"
    "MIN_CHUNK \<le> i - start + 1 \<or> MAX_CHUNK \<le> i - start + 1 \<or> i = length bs - 1"
  shows "chunk_inv bs (i + 1) (i + 1)
    (chunks @ [\<lparr>ch_offset = start, ch_length = i - start + 1,
                ch_hash = fnv1a (subslice start (i + 1 - start) bs)\<rparr>])"
proof -
  have "start \<le> i" "i - start < MAX_CHUNK" using assms(1) by (simp_all add: chunk_inv_def)
  moreover have "take start bs @ subslice start (i - start + 1) bs = take (i + 1) bs"
    using \<open>start \<le> i\<close> by (simp add: subslice_def Suc_diff_le flip: take_add)
  ultimately show ?thesis
    using assms by (auto simp: chunk_inv_def chunk_ok_def chunk_bytes_def Suc_diff_le chunk_consts)
qed

lemma chunk_loop_inv:
  "chunk_inv bs start i chunks \<Longrightarrow>
   chunk_inv bs (length bs) (length bs) (chunk_loop bs start hash i chunks)"
proof (induction bs start hash i chunks rule: chunk_loop.induct)
  case (1 bs start hash i chunks)
  let ?h = "roll_hash bs start i hash"
  let ?cut = "MIN_CHUNK \<le> i - start + 1 \<and> ?h mod CHUNK_MODULUS = CHUNK_PATTERN
    \<or> MAX_CHUNK \<le> i - start + 1 \<or> i = length bs - 1"
  show ?case
  proof (cases "i < length bs")
    case False
    with "1.prems" have "i = length bs" "start = i" by (auto simp: chunk_inv_def)
    moreover have "chunk_loop bs start hash i chunks = chunks"
      using False by (simp add: chunk_loop.simps [of bs start hash i])
    ultimately show ?thesis using "1.prems" by simp
  next
    case True
    note eq = chunk_loop.simps [of bs start hash i chunks] Let_def if_True if_False
    show ?thesis
    proof (cases ?cut)
      case cut: True
      then show ?thesis
        using "1.IH"(1) [OF True refl refl refl refl refl cut chunk_inv_cut [OF "1.prems" True]] True
        by (auto simp only: eq)
    next
      case cont: False
      then have "chunk_inv bs start (i + 1) chunks"
        using "1.prems" True by (auto simp: chunk_inv_def)
      from "1.IH"(2) [OF True refl refl refl refl refl cont this] show ?thesis
        using True cont by (simp only: eq)
    qed
  qed
qed

lemma chunk_data_inv: "chunk_inv bs (length bs) (length bs) (chunk_data bs)"
proof (cases "bs = []")
  case True
  then show ?thesis by (simp add: chunk_data_def chunk_inv_def chunk_consts)
next
  case False
  then have "chunk_inv bs 0 0 []" by (simp add: chunk_inv_def chunk_consts)
  from chunk_loop_inv [OF this] False show ?thesis by (simp add: chunk_data_def)
qed

lemma chunk_data_concat: "concat (map (chunk_bytes bs) (chunk_data bs)) = bs"
  using chunk_data_inv [of bs] by (simp add: chunk_inv_def)

lemma chunk_data_ok: "c \<in> set (chunk_data bs) \<Longrightarrow> chunk_ok bs c"
  using chunk_data_inv [of bs] by (simp add: chunk_inv_def list_all_iff)

section \<open>Store invariant\<close>

text \<open>
  Every stored chunk lies under its own hash, and every chunk seen was either stored or
  counted as a hit.
\<close>

definition store_inv :: "chunk_store \<Rightarrow> bool" where
  "store_inv store \<longleftrightarrow> finite (dom (cs_chunks store))
     \<and> (\<forall>h c. cs_chunks store h = Some c \<longrightarrow> fnv1a c = h)
     \<and> card (dom (cs_chunks store)) + cs_dedup_hits store = cs_total_seen store"

lemma store_inv_new [inv_intros]: "store_inv chunk_store_new"
  by (simp add: store_inv_def chunk_store_new_def)

lemma store_inv_chunk [inv_intros]:
  assumes "store_inv store" "chunk_ok bs c"
  shows "store_inv (store_chunk bs c store)"
  using assms
  by (auto simp: store_inv_def store_chunk_def chunk_ok_def chunk_bytes_def Let_def domIff)

lemma store_chunk_mono: "cs_chunks store \<subseteq>\<^sub>m cs_chunks (store_chunk bs c store)"
  by (auto simp: store_chunk_def map_le_def Let_def)

lemma store_chunk_has: "\<exists>d. cs_chunks (store_chunk bs c store) (ch_hash c) = Some d"
  by (auto simp: store_chunk_def Let_def)

lemma store_fold:
  assumes "store_inv store" "list_all (chunk_ok bs) cs"
  shows "store_inv (fold (store_chunk bs) cs store)
    \<and> cs_chunks store \<subseteq>\<^sub>m cs_chunks (fold (store_chunk bs) cs store)
    \<and> (\<forall>c\<in>set cs. \<exists>d. cs_chunks (fold (store_chunk bs) cs store) (ch_hash c) = Some d)
    \<and> ran (cs_chunks (fold (store_chunk bs) cs store))
        \<subseteq> ran (cs_chunks store) \<union> chunk_bytes bs ` set cs"
  using assms
proof (induction cs arbitrary: store)
  case Nil
  then show ?case by simp
next
  case (Cons c cs)
  let ?s = "store_chunk bs c store"
  let ?f = "fold (store_chunk bs) cs ?s"
  have "store_inv ?s" using Cons.prems by (auto intro: inv_intros)
  from Cons.IH [OF this] Cons.prems
  have IH: "store_inv ?f" "cs_chunks ?s \<subseteq>\<^sub>m cs_chunks ?f"
      "\<forall>c\<in>set cs. \<exists>d. cs_chunks ?f (ch_hash c) = Some d"
      "ran (cs_chunks ?f) \<subseteq> ran (cs_chunks ?s) \<union> chunk_bytes bs ` set cs"
    by simp_all
  have "cs_chunks store \<subseteq>\<^sub>m cs_chunks ?f"
    using store_chunk_mono IH(2) by (rule map_le_trans)
  moreover have "\<exists>d. cs_chunks ?f (ch_hash c) = Some d"
    using store_chunk_has [of bs c store] IH(2) by (metis domI map_le_def)
  moreover have "ran (cs_chunks ?s) \<subseteq> ran (cs_chunks store) \<union> {chunk_bytes bs c}"
    by (auto simp: store_chunk_def chunk_bytes_def ran_def Let_def split: if_splits)
  ultimately show ?case using IH by auto
qed

lemma reassemble_loop_concat:
  assumes "\<forall>h\<in>set hs. cs_chunks store h \<noteq> None"
  shows "reassemble_loop store hs res = Inr (res @ concat (map (\<lambda>h. the (cs_chunks store h)) hs))"
  using assms by (induction hs arbitrary: res) auto

lemma reassemble_loop_Inr:
  "reassemble_loop store hs res = Inr bs \<longleftrightarrow>
     (\<forall>h\<in>set hs. cs_chunks store h \<noteq> None)
     \<and> bs = res @ concat (map (\<lambda>h. the (cs_chunks store h)) hs)"
  by (induction hs arbitrary: res) (auto simp: rbind_Inr_iff)

text \<open>No two different chunks, stored or of the new file, have the same 32-bit hash.\<close>

definition collision_free :: "chunk_store \<Rightarrow> bytes \<Rightarrow> bool" where
  "collision_free store bs \<longleftrightarrow>
     inj_on fnv1a (ran (cs_chunks store) \<union> chunk_bytes bs ` set (chunk_data bs))"

section \<open>The blob store contract\<close>

text \<open>A sequence of writes, the references dropped.\<close>

definition put_all :: "('s \<Rightarrow> bytes \<Rightarrow> 's \<times> 'r) \<Rightarrow> bytes list \<Rightarrow> 's \<Rightarrow> 's" where
  "put_all put bss s = fold (\<lambda>bs s. fst (put s bs)) bss s"

locale blob_store =
  fixes put :: "'s \<Rightarrow> bytes \<Rightarrow> 's \<times> 'r" and get :: "'s \<Rightarrow> 'r \<Rightarrow> string + bytes"
    and inv :: "'s \<Rightarrow> bool" and fits :: "'s \<Rightarrow> bytes \<Rightarrow> bool"
  assumes inv_put: "inv s \<Longrightarrow> inv (fst (put s bs))"
    and get_put: "inv s \<Longrightarrow> fits s bs \<Longrightarrow> get (fst (put s bs)) (snd (put s bs)) = Inr bs"
    and get_put_old: "inv s \<Longrightarrow> get s r = Inr x \<Longrightarrow> get (fst (put s bs)) r = Inr x"
begin

lemma put_all_inv: "inv s \<Longrightarrow> inv (put_all put bss s)"
  unfolding put_all_def by (induction bss arbitrary: s) (simp_all add: inv_put)

lemma put_all_old: "inv s \<Longrightarrow> get s r = Inr x \<Longrightarrow> get (put_all put bss s) r = Inr x"
  unfolding put_all_def by (induction bss arbitrary: s) (simp_all add: inv_put get_put_old)

text \<open>A blob survives every later write.\<close>

lemma get_put_all:
  "inv s \<Longrightarrow> fits s bs \<Longrightarrow> get (put_all put bss (fst (put s bs))) (snd (put s bs)) = Inr bs"
  by (intro put_all_old inv_put get_put)

end

locale compressed_store = blob_store put get inv fits + compressor comp decomp
  for put :: "'s \<Rightarrow> bytes \<Rightarrow> 's \<times> 'r" and get inv fits comp decomp
begin

lemma read_back:
  assumes "inv s" "fits s (comp bs)" "length bs < 2 ^ 32"
  shows "rbind (get (put_all put bss (fst (put s (comp bs)))) (snd (put s (comp bs))))
    (\<lambda>c. decomp c (length bs)) = Inr bs"
  using get_put_all [OF assms(1,2)] inverse [OF assms(3)] by simp

end

lemma reassemble_store_chunks:
  assumes "store_inv store" "collision_free store bs"
  shows "reassemble (fst (store_chunks store bs)) (snd (store_chunks store bs)) = Inr bs"
proof -
  let ?cs = "chunk_data bs" let ?f = "fold (store_chunk bs) ?cs store"
  have "list_all (chunk_ok bs) ?cs" using chunk_data_ok by (simp add: list_all_iff)
  from store_fold [OF assms(1) this]
  have f: "store_inv ?f" "\<forall>c\<in>set ?cs. \<exists>d. cs_chunks ?f (ch_hash c) = Some d"
      "ran (cs_chunks ?f) \<subseteq> ran (cs_chunks store) \<union> chunk_bytes bs ` set ?cs"
    by simp_all
  have "the (cs_chunks ?f (ch_hash c)) = chunk_bytes bs c" if c: "c \<in> set ?cs" for c
  proof -
    obtain d where d: "cs_chunks ?f (ch_hash c) = Some d" using f(2) c by blast
    then have "fnv1a d = fnv1a (chunk_bytes bs c)"
      using f(1) chunk_data_ok [OF c] by (auto simp: store_inv_def chunk_ok_def)
    moreover have "d \<in> ran (cs_chunks store) \<union> chunk_bytes bs ` set ?cs"
      using d f(3) by (blast intro: ranI)
    ultimately show ?thesis
      using assms(2) c d unfolding collision_free_def by (auto dest: inj_onD)
  qed
  then have "concat (map ((\<lambda>h. the (cs_chunks ?f h)) \<circ> ch_hash) ?cs) = bs"
    using chunk_data_concat [of bs] by (simp cong: map_cong)
  then show ?thesis
    using f(2) reassemble_loop_concat [of "map ch_hash ?cs" ?f "[]"]
    by (simp add: store_chunks_def reassemble_def Let_def)
qed

lemma reassemble_mono:
  assumes "store_inv store" "reassemble store hs = Inr x"
  shows "reassemble (fst (store_chunks store bs)) hs = Inr x"
proof -
  have "list_all (chunk_ok bs) (chunk_data bs)" using chunk_data_ok by (simp add: list_all_iff)
  from store_fold [OF assms(1) this]
  have le: "cs_chunks store \<subseteq>\<^sub>m cs_chunks (fst (store_chunks store bs))"
    by (simp add: store_chunks_def Let_def)
  have hs: "\<forall>h\<in>set hs. h \<in> dom (cs_chunks store)"
      "x = concat (map (\<lambda>h. the (cs_chunks store h)) hs)"
    using assms(2) by (auto simp: reassemble_def reassemble_loop_Inr)
  have same: "\<forall>h\<in>set hs. cs_chunks (fst (store_chunks store bs)) h = cs_chunks store h"
    using le hs(1) by (auto simp: map_le_def)
  then show ?thesis
    using hs unfolding reassemble_def reassemble_loop_Inr
    by (auto intro!: arg_cong [where f = concat] map_cong)
qed

interpretation dedup: blob_store store_chunks reassemble store_inv collision_free
proof
  fix s bs assume "store_inv s"
  moreover have "list_all (chunk_ok bs) (chunk_data bs)" using chunk_data_ok by (simp add: list_all_iff)
  ultimately show "store_inv (fst (store_chunks s bs))"
    using store_fold by (simp add: store_chunks_def Let_def)
qed (fact reassemble_store_chunks reassemble_mono)+

interpretation smartfs: compressed_store store_chunks reassemble store_inv collision_free
    "\<lambda>d. compress d m" "\<lambda>d n. decompress d m n" for m ..

section \<open>Properties of the store\<close>

text \<open>
  C9: the chunks of a file, concatenated, are the file, and each of them lies inside the file,
  carries the hash of its own bytes, has at most 8192 bytes, and at least 256 unless it ends the
  file.
\<close>

theorem chunks_tile_file:
  "concat (map (chunk_bytes bs) (chunk_data bs)) = bs \<and> list_all (chunk_ok bs) (chunk_data bs)"
  using chunk_data_concat chunk_data_ok by (simp add: list_all_iff)

text \<open>
  C3: the write path of SmartFS loses nothing. A file that is compressed with any method and
  whose compressed bytes are stored as chunks is read back, after any number of later writes, by
  reassembling its chunk list and decompressing, provided its chunks have hashes of their own.
\<close>

theorem smartfs_read_back:
  assumes "store_inv s" "collision_free s (compress bs m)" "length bs < 2 ^ 32"
  shows "rbind (reassemble (put_all store_chunks later (fst (store_chunks s (compress bs m))))
      (snd (store_chunks s (compress bs m)))) (\<lambda>c. decompress c m (length bs)) = Inr bs"
  using assms by (rule smartfs.read_back)

theorem smartfs_read_back_witness:
  "rbind (reassemble (put_all store_chunks [[4]] (fst (store_chunks chunk_store_new (compress [1, 2, 3] Rle))))
      (snd (store_chunks chunk_store_new (compress [1, 2, 3] Rle))))
      (\<lambda>c. decompress c Rle (length [1, 2, 3 :: u8])) = Inr [1, 2, 3]"
proof (rule smartfs_read_back)
  have "chunk_data (compress [1, 2, 3] Rle)
      = [\<lparr>ch_offset = 0, ch_length = 3, ch_hash = fnv1a [1, 2, 3]\<rparr>]" by code_simp
  then show "collision_free chunk_store_new (compress [1, 2, 3] Rle)"
    by (simp add: collision_free_def chunk_store_new_def)
qed (simp_all add: store_inv_new)

text \<open>
  C10: the store keeps its invariant: every chunk lies under its own hash, and the number of
  unique chunks reported plus the deduplication hits is the number of chunks seen.
\<close>

theorem store_chunks_accounting:
  assumes "store_inv s" "store_chunks s bs = (s', hashes)"
  shows "store_inv s' \<and> fst (chunk_stats s') + cs_dedup_hits s' = snd (chunk_stats s')
    \<and> cs_total_seen s' = cs_total_seen s + length hashes"
proof -
  have seen: "cs_total_seen (fold (store_chunk bs) cs st) = cs_total_seen st + length cs" for cs st
    by (induction cs arbitrary: st) (simp_all add: store_chunk_def Let_def)
  have "store_inv s'" using dedup.inv_put [OF assms(1), of bs] assms(2) by simp
  then show ?thesis
    using seen [of "chunk_data bs" s] assms(2)
    by (auto simp: store_inv_def chunk_stats_def store_chunks_def Let_def)
qed

theorem store_chunks_accounting_witness:
  "store_inv (fst (store_chunks chunk_store_new [1, 2, 3]))"
  using store_chunks_accounting [OF store_inv_new prod.collapse [symmetric], of "[1, 2, 3]"] by blast

text \<open>
  A hit is decided by the 32-bit hash alone. After the store of a file whose bytes are
  "altarage", a file "zinke", which has the same FNV-1a hash, reads back as the first one.
\<close>

theorem dedup_collision:
  "case store_chunks chunk_store_new (ascii ''altarage'') of (s1, r1) \<Rightarrow>
     case store_chunks s1 (ascii ''zinke'') of (s2, r2) \<Rightarrow>
       reassemble s2 r2 = Inr (ascii ''altarage'')"
proof -
  note chunk_eval = chunk_data_def chunk_loop.simps roll_hash_def chunk_consts ascii_def subslice_def
  have "fnv1a (ascii ''zinke'') = fnv1a (ascii ''altarage'')"
    by (simp add: fnv1a_def ascii_def)
  moreover have "chunk_data (ascii ''altarage'')
      = [\<lparr>ch_offset = 0, ch_length = 8, ch_hash = fnv1a (ascii ''altarage'')\<rparr>]"
    by (simp add: chunk_eval)
  moreover have "chunk_data (ascii ''zinke'')
      = [\<lparr>ch_offset = 0, ch_length = 5, ch_hash = fnv1a (ascii ''zinke'')\<rparr>]"
    by (simp add: chunk_eval)
  moreover have "subslice 0 8 (ascii ''altarage'') = ascii ''altarage''"
    by (simp add: subslice_def ascii_def)
  ultimately show ?thesis
    by (simp add: store_chunks_def store_chunk_def reassemble_def chunk_store_new_def)
qed

end
