(* ===== verification/Fs_Ram.thy ===== *)
theory Fs_Ram
  imports Pack_Types "HOL-Library.List_Lexorder" "HOL-Library.Char_ord"
begin

text \<open>
  The file system in memory: inodes (\<open>kernel/src/vfs/inode.rs\<close>) and the path-indexed tree
  (\<open>vfs/ramfs.rs\<close>). The counter of inode numbers is part of the state and the timer an argument.
\<close>

section \<open>Inodes\<close>

datatype inode_type = InFile | InDirectory | InDevice

record inode =
  i_id :: u64
  i_name :: string
  i_type :: inode_type
  i_data :: bytes
  i_children :: "u64 list"
  i_size :: u64
  i_created_at :: u64
  i_modified_at :: u64

definition inode_new_file :: "u64 \<Rightarrow> u64 \<Rightarrow> string \<Rightarrow> bytes \<Rightarrow> inode" where
  "inode_new_file now ino name data = \<lparr>i_id = ino, i_name = name, i_type = InFile, i_data = data,
     i_children = [], i_size = of_nat (length data), i_created_at = now, i_modified_at = now\<rparr>"

definition inode_new_directory :: "u64 \<Rightarrow> u64 \<Rightarrow> string \<Rightarrow> inode" where
  "inode_new_directory now ino name = \<lparr>i_id = ino, i_name = name, i_type = InDirectory, i_data = [],
     i_children = [], i_size = 0, i_created_at = now, i_modified_at = now\<rparr>"

definition inode_to_smartpack :: "inode \<Rightarrow> pack_value" where
  "inode_to_smartpack n = Map [
     (String (ascii ''name''), String (ascii (i_name n))),
     (String (ascii ''type''), String (ascii (case i_type n of
        InFile \<Rightarrow> ''file'' | InDirectory \<Rightarrow> ''directory'' | InDevice \<Rightarrow> ''device''))),
     (String (ascii ''size''), UInt64 (i_size n)),
     (String (ascii ''created''), Timestamp (i_created_at n)),
     (String (ascii ''modified''), Timestamp (i_modified_at n)),
     (String (ascii ''children''), UInt32 (of_nat (length (i_children n))))]"

section \<open>Paths\<close>

definition path_filename :: "string \<Rightarrow> string" where
  "path_filename path = rev (takeWhile (\<lambda>c. c \<noteq> CHR ''/'') (rev path))"

text \<open>The text up to and including the last slash; empty without a slash.\<close>

definition up_to_slash :: "string \<Rightarrow> string" where
  "up_to_slash path = rev (dropWhile (\<lambda>c. c \<noteq> CHR ''/'') (rev path))"

definition path_parent :: "string \<Rightarrow> string option" where
  "path_parent path =
     (if path = ''/'' then None
      else let trimmed = rev (dropWhile (\<lambda>c. c = CHR ''/'') (rev path));
               upto = up_to_slash trimmed
           in if upto = [] then None
              else if length upto = 1 then Some ''/''
              else Some (butlast upto))"

section \<open>The tree\<close>

record ramfs =
  r_inodes :: "u64 \<rightharpoonup> inode"
  r_path_map :: "string \<rightharpoonup> u64"
  r_root :: "u64 option"
  r_next_inode :: u64

definition ramfs_new :: "u64 \<Rightarrow> ramfs" where
  "ramfs_new next = \<lparr>r_inodes = Map.empty, r_path_map = Map.empty, r_root = None, r_next_inode = next\<rparr>"

definition alloc_inode_id :: "ramfs \<Rightarrow> u64 \<times> ramfs" where
  "alloc_inode_id fs = (r_next_inode fs, fs\<lparr>r_next_inode := r_next_inode fs + 1\<rparr>)"

definition with_parent :: "string \<Rightarrow> (inode \<Rightarrow> inode) \<Rightarrow> ramfs \<Rightarrow> ramfs" where
  "with_parent path f fs =
     (case path_parent path of
        None \<Rightarrow> fs
      | Some parent_path \<Rightarrow> (case r_path_map fs parent_path of
          None \<Rightarrow> fs
        | Some parent_id \<Rightarrow> (case r_inodes fs parent_id of
            None \<Rightarrow> fs
          | Some parent \<Rightarrow> fs\<lparr>r_inodes := (r_inodes fs)(parent_id \<mapsto> f parent)\<rparr>)))"

definition ramfs_mkdir :: "u64 \<Rightarrow> string \<Rightarrow> ramfs \<Rightarrow> (string + unit) \<times> ramfs" where
  "ramfs_mkdir now path fs =
     (if r_path_map fs path \<noteq> None then (Inr (), fs)
      else case alloc_inode_id fs of (ino, fs) \<Rightarrow>
        let inode = inode_new_directory now ino (path_filename path);
            fs = with_parent path (\<lambda>p. p\<lparr>i_children := i_children p @ [ino]\<rparr>) fs;
            fs = fs\<lparr>r_inodes := (r_inodes fs)(ino \<mapsto> inode), r_path_map := (r_path_map fs)(path \<mapsto> ino)\<rparr>
        in (Inr (), if r_root fs = None then fs\<lparr>r_root := Some ino\<rparr> else fs))"

definition ramfs_create_file :: "u64 \<Rightarrow> string \<Rightarrow> bytes \<Rightarrow> ramfs \<Rightarrow> (string + unit) \<times> ramfs" where
  "ramfs_create_file now path data fs =
     (if r_path_map fs path \<noteq> None then (Inl ''File already exists'', fs)
      else case alloc_inode_id fs of (ino, fs) \<Rightarrow>
        let inode = inode_new_file now ino (path_filename path) data;
            fs = with_parent path (\<lambda>p. p\<lparr>i_children := i_children p @ [ino]\<rparr>) fs
        in (Inr (), fs\<lparr>r_inodes := (r_inodes fs)(ino \<mapsto> inode), r_path_map := (r_path_map fs)(path \<mapsto> ino)\<rparr>))"

definition ramfs_lookup :: "string \<Rightarrow> ramfs \<Rightarrow> u64 option" where
  "ramfs_lookup path fs = r_path_map fs path"

text \<open>A read returns the bytes it copies into a buffer of \<open>len\<close> bytes.\<close>

definition ramfs_read :: "u64 \<Rightarrow> nat \<Rightarrow> nat \<Rightarrow> ramfs \<Rightarrow> string + bytes" where
  "ramfs_read inode_id offset len fs =
     rbind (ok_or ''Inode not found'' (r_inodes fs inode_id)) (\<lambda>inode.
       if i_type inode \<noteq> InFile then Inl ''Not a file''
       else if offset \<ge> length (i_data inode) then Inr []
       else let available = length (i_data inode) - offset; to_read = min len available
            in Inr (subslice offset to_read (i_data inode)))"

definition ramfs_write :: "u64 \<Rightarrow> u64 \<Rightarrow> bytes \<Rightarrow> ramfs \<Rightarrow> (string + unit) \<times> ramfs" where
  "ramfs_write now inode_id data fs =
     (case r_inodes fs inode_id of
        None \<Rightarrow> (Inl ''Inode not found'', fs)
      | Some inode \<Rightarrow>
          if i_type inode \<noteq> InFile then (Inl ''Not a file'', fs)
          else (Inr (), fs\<lparr>r_inodes := (r_inodes fs)(inode_id \<mapsto>
            inode\<lparr>i_data := data, i_size := of_nat (length data), i_modified_at := now\<rparr>)\<rparr>))"

definition ramfs_readdir :: "string \<Rightarrow> ramfs \<Rightarrow> string + string list" where
  "ramfs_readdir path fs =
     rbind (ok_or ''Path not found'' (r_path_map fs path)) (\<lambda>inode_id.
     rbind (ok_or ''Inode not found'' (r_inodes fs inode_id)) (\<lambda>inode.
       if i_type inode \<noteq> InDirectory then Inl ''Not a directory''
       else Inr (map i_name (List.map_filter (r_inodes fs) (i_children inode)))))"

definition ramfs_stat :: "string \<Rightarrow> ramfs \<Rightarrow> string + pack_value" where
  "ramfs_stat path fs =
     rbind (ok_or ''Path not found'' (r_path_map fs path)) (\<lambda>inode_id.
     rbind (ok_or ''Inode not found'' (r_inodes fs inode_id)) (\<lambda>inode.
       Inr (inode_to_smartpack inode)))"

definition ramfs_delete :: "string \<Rightarrow> ramfs \<Rightarrow> (string + unit) \<times> ramfs" where
  "ramfs_delete path fs =
     (case r_path_map fs path of
        None \<Rightarrow> (Inl ''Path not found'', fs)
      | Some inode_id \<Rightarrow> (case r_inodes fs inode_id of
          None \<Rightarrow> (Inl ''Inode not found'', fs)
        | Some inode \<Rightarrow>
            if i_type inode = InDirectory then (Inl ''is a directory'', fs)
            else let fs = with_parent path (\<lambda>p. p\<lparr>i_children := filter (\<lambda>c. c \<noteq> inode_id) (i_children p)\<rparr>) fs
                 in (Inr (), fs\<lparr>r_inodes := (r_inodes fs)(inode_id := None),
                               r_path_map := (r_path_map fs)(path := None)\<rparr>)))"

section \<open>The invariant\<close>

text \<open>
  Paths name distinct inodes with numbers below the counter, an inode knows its number, its name
  and its size, and the children of an inode are the newer inodes whose parent path is its path.
\<close>

definition kids :: "ramfs \<Rightarrow> string \<Rightarrow> u64 \<Rightarrow> u64 set" where
  "kids fs path ino = {c. ino < c \<and> (\<exists>q. r_path_map fs q = Some c \<and> path_parent q = Some path)}"

definition inode_ok :: "ramfs \<Rightarrow> string \<Rightarrow> u64 \<Rightarrow> inode \<Rightarrow> bool" where
  "inode_ok fs path ino n \<longleftrightarrow>
     i_id n = ino \<and> i_name n = path_filename path \<and> i_size n = of_nat (length (i_data n))
     \<and> (i_type n \<noteq> InFile \<longrightarrow> i_data n = []) \<and> i_type n \<noteq> InDevice \<and> distinct (i_children n) \<and> set (i_children n) = kids fs path ino"

definition ramfs_ok :: "ramfs \<Rightarrow> bool" where
  "ramfs_ok fs \<longleftrightarrow>
     inj_on (r_path_map fs) (dom (r_path_map fs)) \<and> ran (r_path_map fs) = dom (r_inodes fs)
     \<and> (\<forall>path ino. r_path_map fs path = Some ino \<longrightarrow>
          ino < r_next_inode fs \<and> inode_ok fs path ino (the (r_inodes fs ino)))"

text \<open>The files and the directories of the tree.\<close>

definition files :: "ramfs \<Rightarrow> string \<rightharpoonup> bytes" where
  "files fs path = (case r_path_map fs path of
     None \<Rightarrow> None
   | Some ino \<Rightarrow> (case r_inodes fs ino of
       None \<Rightarrow> None
     | Some n \<Rightarrow> if i_type n = InFile then Some (i_data n) else None))"

definition directories :: "ramfs \<Rightarrow> string set" where
  "directories fs = {path. \<exists>ino n. r_path_map fs path = Some ino \<and> r_inodes fs ino = Some n \<and> i_type n = InDirectory}"

lemma ramfs_okD:
  assumes "ramfs_ok fs" "r_path_map fs path = Some ino"
  shows "\<exists>n. r_inodes fs ino = Some n \<and> inode_ok fs path ino n" "ino < r_next_inode fs"
    "r_path_map fs q = Some ino \<longleftrightarrow> q = path"
proof -
  have "ino \<in> dom (r_inodes fs)" using assms by (auto simp: ramfs_ok_def intro: ranI)
  with assms show "\<exists>n. r_inodes fs ino = Some n \<and> inode_ok fs path ino n" by (fastforce simp: ramfs_ok_def)
  show "ino < r_next_inode fs" using assms by (auto simp: ramfs_ok_def)
  show "r_path_map fs q = Some ino \<longleftrightarrow> q = path"
    using assms by (auto simp: ramfs_ok_def inj_on_def dom_def)
qed

lemma with_parent_sel [simp]:
  "r_path_map (with_parent path f fs) = r_path_map fs"
  "r_next_inode (with_parent path f fs) = r_next_inode fs"
  "r_root (with_parent path f fs) = r_root fs"
  "dom (r_inodes (with_parent path f fs)) = dom (r_inodes fs)"
  by (auto simp: with_parent_def split: option.splits)

lemma with_parent_inodes:
  assumes "ramfs_ok fs" "r_path_map fs q = Some i"
  shows "r_inodes (with_parent path f (fs\<lparr>r_next_inode := k\<rparr>)) i =
    (if path_parent path = Some q then map_option f (r_inodes fs i) else r_inodes fs i)"
proof (cases "path_parent path")
  case None
  then show ?thesis by (simp add: with_parent_def)
next
  case (Some p)
  show ?thesis
  proof (cases "r_path_map fs p = Some i")
    case True
    then have "p = q" using ramfs_okD(3) [OF assms, of p] by simp
    with True Some show ?thesis by (simp add: with_parent_def split: option.split)
  next
    case False
    then have "p \<noteq> q" using assms(2) by auto
    with False Some show ?thesis by (simp add: with_parent_def split: option.split)
  qed
qed

text \<open>Insertion of a new inode, the common part of the two creating operations.\<close>

definition attach :: "string \<Rightarrow> inode \<Rightarrow> ramfs \<Rightarrow> ramfs" where
  "attach path n fs =
     (let ino = r_next_inode fs;
          fs = with_parent path (\<lambda>p. p\<lparr>i_children := i_children p @ [ino]\<rparr>) (fs\<lparr>r_next_inode := ino + 1\<rparr>)
      in fs\<lparr>r_inodes := (r_inodes fs)(ino \<mapsto> n), r_path_map := (r_path_map fs)(path \<mapsto> ino)\<rparr>)"

lemma attach_sel [simp]:
  "r_path_map (attach path n fs) = (r_path_map fs)(path \<mapsto> r_next_inode fs)"
  "r_next_inode (attach path n fs) = r_next_inode fs + 1"
  "r_root (attach path n fs) = r_root fs"
  "dom (r_inodes (attach path n fs)) = insert (r_next_inode fs) (dom (r_inodes fs))"
  by (simp_all add: attach_def Let_def)

lemma attach_inodes:
  assumes "ramfs_ok fs" "r_path_map fs path = None"
  shows "r_inodes (attach path n fs) (r_next_inode fs) = Some n"
    "r_path_map fs q = Some i \<Longrightarrow> r_inodes (attach path n fs) i =
      (if path_parent path = Some q then map_option (\<lambda>p. p\<lparr>i_children := i_children p @ [r_next_inode fs]\<rparr>) (r_inodes fs i)
       else r_inodes fs i)"
proof -
  show "r_inodes (attach path n fs) (r_next_inode fs) = Some n" by (simp add: attach_def Let_def)
  assume q: "r_path_map fs q = Some i"
  with ramfs_okD(2) [OF assms(1) q] show "r_inodes (attach path n fs) i =
      (if path_parent path = Some q then map_option (\<lambda>p. p\<lparr>i_children := i_children p @ [r_next_inode fs]\<rparr>) (r_inodes fs i)
       else r_inodes fs i)"
    by (auto simp: attach_def Let_def with_parent_inodes [OF assms(1) q])
qed

lemma kids_below: "ramfs_ok fs \<Longrightarrow> c \<in> kids fs q i \<Longrightarrow> c < r_next_inode fs"
  by (auto simp: kids_def dest: ramfs_okD(2))

lemma kids_attach:
  assumes "ramfs_ok fs" "r_path_map fs path = None"
  shows "kids (attach path n fs) q i =
    kids fs q i \<union> (if path_parent path = Some q \<and> i < r_next_inode fs then {r_next_inode fs} else {})"
proof -
  have "(\<exists>p. ((r_path_map fs)(path \<mapsto> r_next_inode fs)) p = Some c \<and> path_parent p = Some q) \<longleftrightarrow>
      (\<exists>p. r_path_map fs p = Some c \<and> path_parent p = Some q) \<or> path_parent path = Some q \<and> c = r_next_inode fs"
    (is "?l \<longleftrightarrow> ?r") for c
  proof
    assume ?l
    then obtain p where "((r_path_map fs)(path \<mapsto> r_next_inode fs)) p = Some c" "path_parent p = Some q" by blast
    then show ?r by (cases "p = path") auto
  next
    assume ?r
    then show ?l
    proof
      assume "\<exists>p. r_path_map fs p = Some c \<and> path_parent p = Some q"
      then obtain p where p: "r_path_map fs p = Some c" "path_parent p = Some q" by blast
      with assms(2) have "p \<noteq> path" by auto
      with p show ?l by (intro exI [of _ p]) simp
    qed auto
  qed
  then show ?thesis by (auto simp: kids_def)
qed

lemma inode_ok_push:
  assumes n: "inode_ok fs q i n" and ok: "ramfs_ok fs" "r_path_map fs path = None" "r_path_map fs q = Some i"
  shows "inode_ok (attach path m fs) q i
     (if path_parent path = Some q then n\<lparr>i_children := i_children n @ [r_next_inode fs]\<rparr> else n)"
proof -
  have "r_next_inode fs \<notin> kids fs q i" using kids_below [OF ok(1), of "r_next_inode fs" q i] by auto
  with n ramfs_okD(2) [OF ok(1,3)] show ?thesis
    by (simp add: inode_ok_def kids_attach [OF ok(1,2)])
qed

definition fresh_inode :: "string \<Rightarrow> ramfs \<Rightarrow> inode \<Rightarrow> bool" where
  "fresh_inode path fs n \<longleftrightarrow> i_id n = r_next_inode fs \<and> i_name n = path_filename path \<and> i_children n = []
     \<and> i_size n = of_nat (length (i_data n)) \<and> (i_type n \<noteq> InFile \<longrightarrow> i_data n = []) \<and> i_type n \<noteq> InDevice"

lemma ramfs_ok_attach:
  assumes ok: "ramfs_ok fs" and new: "r_path_map fs path = None" and n: "fresh_inode path fs n"
    and room: "r_next_inode fs < r_next_inode fs + 1"
  shows "ramfs_ok (attach path n fs)"
proof -
  let ?fs = "attach path n fs"
  have lt: "i < r_next_inode fs" if "r_path_map fs q = Some i" for q i
    using ramfs_okD(2) [OF ok that] .
  have "inj_on (r_path_map ?fs) (dom (r_path_map ?fs))"
    using ok lt by (fastforce simp: ramfs_ok_def inj_on_def dom_def)
  moreover have "ran (r_path_map ?fs) = dom (r_inodes ?fs)"
    using ok new by (simp add: ramfs_ok_def)
  moreover have "inode_ok ?fs path (r_next_inode fs) n"
  proof -
    have "kids fs path (r_next_inode fs) = {}" using kids_below [OF ok] by (fastforce simp: kids_def)
    then show ?thesis using n kids_attach [OF ok new, where q = path and i = "r_next_inode fs" and n = n]
      by (simp add: inode_ok_def fresh_inode_def)
  qed
  moreover have "inode_ok ?fs q i (the (r_inodes ?fs i))" if q: "r_path_map fs q = Some i" for q i
  proof -
    obtain m where m: "r_inodes fs i = Some m" "inode_ok fs q i m" using ramfs_okD(1) [OF ok q] by blast
    from inode_ok_push [OF m(2) ok new q, of n] m(1) show ?thesis
      by (simp add: attach_inodes(2) [OF ok new q] split: if_splits)
  qed
  ultimately show ?thesis
    using lt room attach_inodes(1) [OF ok new, where n = n] by (fastforce simp: ramfs_ok_def)
qed

lemma files_attach:
  assumes "ramfs_ok fs" "r_path_map fs path = None"
  shows "files (attach path n fs) = (files fs)(path := if i_type n = InFile then Some (i_data n) else None)"
    "directories (attach path n fs) = directories fs \<union> (if i_type n = InDirectory then {path} else {})"
proof -
  show "files (attach path n fs) = (files fs)(path := if i_type n = InFile then Some (i_data n) else None)"
  proof
    fix q show "files (attach path n fs) q
      = ((files fs)(path := if i_type n = InFile then Some (i_data n) else None)) q"
      using assms(2) attach_inodes(1) [OF assms, where n = n]
      by (cases "r_path_map fs q")
        (auto simp: files_def attach_inodes(2) [OF assms] split: option.splits if_splits)
  qed
  have "q \<in> directories (attach path n fs) \<longleftrightarrow>
      q \<in> directories fs \<union> (if i_type n = InDirectory then {path} else {})" for q
    using assms(2) attach_inodes(1) [OF assms, where n = n]
    by (cases "q = path"; cases "r_path_map fs q")
      (auto simp: directories_def attach_inodes(2) [OF assms] split: if_splits)
  then show "directories (attach path n fs) = directories fs \<union> (if i_type n = InDirectory then {path} else {})"
    by blast
qed

section \<open>The operations refine a map of files\<close>

definition room :: "ramfs \<Rightarrow> bool" where
  "room fs \<longleftrightarrow> r_next_inode fs < r_next_inode fs + 1"

lemma ramfs_create_file_attach:
  "r_path_map fs path = None \<Longrightarrow> ramfs_create_file now path data fs
     = (Inr (), attach path (inode_new_file now (r_next_inode fs) (path_filename path) data) fs)"
  by (simp add: ramfs_create_file_def alloc_inode_id_def attach_def Let_def)

lemma ramfs_mkdir_attach:
  "r_path_map fs path = None \<Longrightarrow> \<exists>root. ramfs_mkdir now path fs
     = (Inr (), (attach path (inode_new_directory now (r_next_inode fs) (path_filename path)) fs)\<lparr>r_root := root\<rparr>)"
  by (intro exI [of _ "if r_root fs = None then Some (r_next_inode fs) else r_root fs"])
    (simp add: ramfs_mkdir_def alloc_inode_id_def attach_def Let_def)

lemma root_irrelevant [simp]:
  "files (fs\<lparr>r_root := root\<rparr>) = files fs" "directories (fs\<lparr>r_root := root\<rparr>) = directories fs"
  "ramfs_ok (fs\<lparr>r_root := root\<rparr>) = ramfs_ok fs"
  by (simp_all add: files_def directories_def ramfs_ok_def inode_ok_def kids_def fun_eq_iff cong: option.case_cong)

lemma create_file_refines:
  assumes "ramfs_ok fs" "room fs" "r_path_map fs path = None"
  shows "\<exists>fs'. ramfs_create_file now path data fs = (Inr (), fs') \<and> ramfs_ok fs'
    \<and> files fs' = (files fs)(path \<mapsto> data) \<and> directories fs' = directories fs
    \<and> dom (r_path_map fs') = insert path (dom (r_path_map fs))"
  using assms ramfs_ok_attach [OF assms(1,3), of "inode_new_file now (r_next_inode fs) (path_filename path) data"]
  by (simp add: ramfs_create_file_attach files_attach room_def fresh_inode_def inode_new_file_def)

lemma mkdir_refines:
  assumes "ramfs_ok fs" "room fs" "r_path_map fs path = None"
  shows "\<exists>fs'. ramfs_mkdir now path fs = (Inr (), fs') \<and> ramfs_ok fs'
    \<and> files fs' = files fs \<and> directories fs' = insert path (directories fs)
    \<and> dom (r_path_map fs') = insert path (dom (r_path_map fs))"
proof -
  let ?n = "inode_new_directory now (r_next_inode fs) (path_filename path)"
  obtain root where r: "ramfs_mkdir now path fs = (Inr (), (attach path ?n fs)\<lparr>r_root := root\<rparr>)"
    using ramfs_mkdir_attach [OF assms(3)] by blast
  have "files fs path = None" using assms(3) by (simp add: files_def)
  then have "files (attach path ?n fs) = files fs" "directories (attach path ?n fs) = insert path (directories fs)"
    using files_attach [OF assms(1,3), of ?n] by (simp_all add: inode_new_directory_def fun_upd_idem)
  moreover have "ramfs_ok (attach path ?n fs)"
    using assms(2) by (intro ramfs_ok_attach [OF assms(1,3)]) (simp_all add: room_def fresh_inode_def inode_new_directory_def)
  ultimately show ?thesis using r by simp
qed

lemma file_inode:
  assumes "ramfs_ok fs" "files fs path = Some data"
  shows "\<exists>ino n. r_path_map fs path = Some ino \<and> r_inodes fs ino = Some n \<and> i_type n = InFile \<and> i_data n = data"
  using assms by (auto simp: files_def split: option.splits if_splits)

lemma write_refines:
  assumes ok: "ramfs_ok fs" and p: "r_path_map fs path = Some ino" "files fs path = Some old"
  shows "\<exists>fs'. ramfs_write now ino data fs = (Inr (), fs') \<and> ramfs_ok fs'
    \<and> files fs' = (files fs)(path \<mapsto> data) \<and> directories fs' = directories fs
    \<and> r_path_map fs' = r_path_map fs"
proof -
  obtain n where n: "r_inodes fs ino = Some n" "i_type n = InFile"
    using file_inode [OF ok p(2)] p(1) by auto
  let ?n = "n\<lparr>i_data := data, i_size := of_nat (length data), i_modified_at := now\<rparr>"
  let ?fs = "fs\<lparr>r_inodes := (r_inodes fs)(ino \<mapsto> ?n)\<rparr>"
  have w: "ramfs_write now ino data fs = (Inr (), ?fs)" using n by (simp add: ramfs_write_def)
  have inode: "inode_ok ?fs q i m \<longleftrightarrow> inode_ok fs q i m" for q i m
    by (simp add: inode_ok_def kids_def)
  have "inode_ok fs path ino n" using ramfs_okD(1) [OF ok p(1)] n by auto
  then have okn: "inode_ok fs path ino ?n" using n(2) by (simp add: inode_ok_def)
  have path: "q = path" if "r_path_map fs q = Some ino" for q using ramfs_okD(3) [OF ok p(1), of q] that by simp
  have "ramfs_ok ?fs"
    unfolding ramfs_ok_def inode
    using ok n(1) okn path by (auto simp: ramfs_ok_def insert_absorb domI)
  moreover have "files ?fs q = ((files fs)(path \<mapsto> data)) q" for q
    using p(1) n path [of q] by (cases "r_path_map fs q") (auto simp: files_def)
  moreover have "q \<in> directories ?fs \<longleftrightarrow> q \<in> directories fs" for q
    using n path [of q] by (cases "r_path_map fs q") (auto simp: directories_def)
  ultimately show ?thesis using w by (auto simp: fun_eq_iff)
qed

lemma ran_remove:
  assumes "inj_on m (dom m)" "m k = Some v"
  shows "ran (m(k := None)) = ran m - {v}"
proof -
  have eq: "j = k" if "m j = Some v" for j
    by (rule inj_onD [OF assms(1)]) (use that assms(2) in auto)
  show ?thesis
  proof (rule set_eqI)
    fix x
    have "(\<exists>j. (m(k := None)) j = Some x) \<longleftrightarrow> (\<exists>j. m j = Some x \<and> j \<noteq> k)" by (metis fun_upd_apply option.discI)
    also have "\<dots> \<longleftrightarrow> (\<exists>j. m j = Some x) \<and> x \<noteq> v" using eq assms(2) by (metis option.inject)
    finally show "x \<in> ran (m(k := None)) \<longleftrightarrow> x \<in> ran m - {v}" by (simp add: ran_def)
  qed
qed

lemma ex_removed:
  assumes "\<And>j. m j = Some v \<longleftrightarrow> j = k"
  shows "(\<exists>p. (m(k := None)) p = Some c \<and> P p) \<longleftrightarrow> (\<exists>p. m p = Some c \<and> P p) \<and> c \<noteq> v"
proof (cases "c = v")
  case True
  then show ?thesis using assms by auto
next
  case False
  then have "m k \<noteq> Some c" using assms [of k] by auto
  with False show ?thesis by (metis fun_upd_apply option.distinct(1))
qed

text \<open>Removal of a path, the effect of a deletion.\<close>

definition detach :: "string \<Rightarrow> u64 \<Rightarrow> ramfs \<Rightarrow> ramfs" where
  "detach path ino fs =
     (let fs = with_parent path (\<lambda>p. p\<lparr>i_children := filter (\<lambda>c. c \<noteq> ino) (i_children p)\<rparr>) fs
      in fs\<lparr>r_inodes := (r_inodes fs)(ino := None), r_path_map := (r_path_map fs)(path := None)\<rparr>)"

lemma detach_sel [simp]:
  "r_path_map (detach path ino fs) = (r_path_map fs)(path := None)"
  "r_next_inode (detach path ino fs) = r_next_inode fs"
  "dom (r_inodes (detach path ino fs)) = dom (r_inodes fs) - {ino}"
  by (simp_all add: detach_def Let_def)

lemma detach_inodes:
  assumes "ramfs_ok fs" "r_path_map fs path = Some ino" "r_path_map fs q = Some i" "q \<noteq> path"
  shows "r_inodes (detach path ino fs) i =
    (if path_parent path = Some q
     then map_option (\<lambda>p. p\<lparr>i_children := filter (\<lambda>c. c \<noteq> ino) (i_children p)\<rparr>) (r_inodes fs i) else r_inodes fs i)"
proof -
  have "i \<noteq> ino" using ramfs_okD(3) [OF assms(1,2), of q] assms(3,4) by auto
  with with_parent_inodes [OF assms(1,3), of path _ "r_next_inode fs"] show ?thesis
    by (simp add: detach_def Let_def)
qed

lemma kids_detach:
  "ramfs_ok fs \<Longrightarrow> r_path_map fs path = Some ino \<Longrightarrow> kids (detach path ino fs) q i = kids fs q i - {ino}"
  unfolding kids_def detach_sel
  by (subst ex_removed [of "r_path_map fs" ino path]) (simp_all add: ramfs_okD(3) set_eq_iff)

lemma inode_ok_detach:
  assumes "ramfs_ok fs" "r_path_map fs path = Some ino" "r_path_map fs q = Some i" "q \<noteq> path"
  shows "inode_ok (detach path ino fs) q i (the (r_inodes (detach path ino fs) i))"
proof -
  obtain m where m: "r_inodes fs i = Some m" "inode_ok fs q i m" using ramfs_okD(1) [OF assms(1,3)] by blast
  have "path_parent path = Some q" if "ino \<in> kids fs q i"
    using that ramfs_okD(3) [OF assms(1,2)] by (auto simp: kids_def)
  with m show ?thesis
    by (auto simp: detach_inodes [OF assms] inode_ok_def kids_detach [OF assms(1,2)])
qed

lemma ramfs_ok_detach:
  assumes ok: "ramfs_ok fs" and p: "r_path_map fs path = Some ino"
  shows "ramfs_ok (detach path ino fs)"
proof -
  have "ran ((r_path_map fs)(path := None)) = dom (r_inodes fs) - {ino}"
    using ok ran_remove [of "r_path_map fs" path ino] p by (simp add: ramfs_ok_def)
  moreover have "inj_on ((r_path_map fs)(path := None)) (dom (r_path_map fs) - {path})"
    using ok by (auto simp: ramfs_ok_def inj_on_def)
  moreover have "i < r_next_inode fs" if "r_path_map fs q = Some i" for q i using ramfs_okD(2) [OF ok that] .
  ultimately show ?thesis
    using inode_ok_detach [OF ok p] by (simp add: ramfs_ok_def)
qed

lemma files_detach:
  assumes "ramfs_ok fs" "r_path_map fs path = Some ino" "files fs path \<noteq> None"
  shows "files (detach path ino fs) = (files fs)(path := None)"
    "directories (detach path ino fs) = directories fs"
proof -
  note inodes = detach_inodes [OF assms(1,2)]
  show "files (detach path ino fs) = (files fs)(path := None)"
  proof
    fix q show "files (detach path ino fs) q = ((files fs)(path := None)) q"
      by (cases "q = path"; cases "r_path_map fs q") (simp_all add: files_def inodes split: option.split)
  qed
  have "q \<in> directories (detach path ino fs) \<longleftrightarrow> q \<in> directories fs" for q
    using assms(2,3)
    by (cases "q = path"; cases "r_path_map fs q") (auto simp: directories_def files_def inodes)
  then show "directories (detach path ino fs) = directories fs" by blast
qed

lemma delete_refines:
  assumes ok: "ramfs_ok fs" and p: "files fs path = Some old"
  shows "\<exists>fs'. ramfs_delete path fs = (Inr (), fs') \<and> ramfs_ok fs' \<and> r_next_inode fs' = r_next_inode fs
    \<and> files fs' = (files fs)(path := None) \<and> directories fs' = directories fs
    \<and> r_path_map fs' = (r_path_map fs)(path := None)"
proof -
  obtain ino n where n: "r_path_map fs path = Some ino" "r_inodes fs ino = Some n" "i_type n = InFile"
    using file_inode [OF ok p] by auto
  then have "ramfs_delete path fs = (Inr (), detach path ino fs)"
    by (simp add: ramfs_delete_def detach_def Let_def)
  with ramfs_ok_detach [OF ok n(1)] files_detach [OF ok n(1)] p show ?thesis by simp
qed

lemma path_kinds:
  assumes "ramfs_ok fs"
  shows "dom (r_path_map fs) = dom (files fs) \<union> directories fs"
proof -
  have "r_path_map fs p \<noteq> None \<longleftrightarrow> files fs p \<noteq> None \<or> p \<in> directories fs" for p
  proof (cases "r_path_map fs p")
    case (Some i)
    then obtain n where n: "r_inodes fs i = Some n" "inode_ok fs p i n" using ramfs_okD(1) [OF assms] by blast
    with Some show ?thesis by (cases "i_type n") (simp_all add: files_def directories_def inode_ok_def)
  qed (simp add: files_def directories_def)
  then show ?thesis by blast
qed

lemma files_not_directories: "p \<in> directories fs \<Longrightarrow> files fs p = None"
  by (auto simp: directories_def files_def)

text \<open>
  Histories of operations, and what they do to a map of files and a set of directories. A write
  goes through the lookup of its path, as in the callers.
\<close>

datatype ram_op = RMkdir string | RCreate string bytes | RWrite string bytes | RDelete string

fun ram_apply :: "u64 \<Rightarrow> ram_op \<Rightarrow> ramfs \<Rightarrow> (string + unit) \<times> ramfs" where
  "ram_apply now (RMkdir p) fs = ramfs_mkdir now p fs"
| "ram_apply now (RCreate p d) fs = ramfs_create_file now p d fs"
| "ram_apply now (RWrite p d) fs = (case ramfs_lookup p fs of
     None \<Rightarrow> (Inl ''File not found'', fs) | Some ino \<Rightarrow> ramfs_write now ino d fs)"
| "ram_apply now (RDelete p) fs = ramfs_delete p fs"

fun spec_apply :: "ram_op \<Rightarrow> (string \<rightharpoonup> bytes) \<times> string set \<Rightarrow> bool \<times> (string \<rightharpoonup> bytes) \<times> string set" where
  "spec_apply (RMkdir p) (F, D) = (True, F, if p \<in> dom F then D else insert p D)"
| "spec_apply (RCreate p d) (F, D) = (if p \<in> dom F \<union> D then (False, F, D) else (True, F(p \<mapsto> d), D))"
| "spec_apply (RWrite p d) (F, D) = (if p \<in> dom F then (True, F(p \<mapsto> d), D) else (False, F, D))"
| "spec_apply (RDelete p) (F, D) = (if p \<in> dom F then (True, F(p := None), D) else (False, F, D))"

fun ram_run :: "(u64 \<times> ram_op) list \<Rightarrow> ramfs \<Rightarrow> bool list \<times> ramfs" where
  "ram_run [] fs = ([], fs)"
| "ram_run ((now, x) # xs) fs = (case ram_apply now x fs of (r, fs) \<Rightarrow>
     case ram_run xs fs of (rs, fs) \<Rightarrow> ((\<not> isl r) # rs, fs))"

fun spec_run :: "(u64 \<times> ram_op) list \<Rightarrow> (string \<rightharpoonup> bytes) \<times> string set \<Rightarrow> bool list \<times> (string \<rightharpoonup> bytes) \<times> string set" where
  "spec_run [] A = ([], A)"
| "spec_run ((now, x) # xs) A = (case spec_apply x A of (r, A) \<Rightarrow>
     case spec_run xs A of (rs, A) \<Rightarrow> (r # rs, A))"

definition ram_abs :: "ramfs \<Rightarrow> (string \<rightharpoonup> bytes) \<times> string set" where
  "ram_abs fs = (files fs, directories fs)"

lemma apply_refines_create:
  assumes "ramfs_ok fs" "room fs" "ramfs_create_file now p d fs = (r, fs')"
  shows "ramfs_ok fs' \<and> spec_apply (RCreate p d) (ram_abs fs) = (\<not> isl r, ram_abs fs')
    \<and> (r_next_inode fs' = r_next_inode fs \<or> r_next_inode fs' = r_next_inode fs + 1)"
proof (cases "r_path_map fs p")
  case None
  have p: "p \<notin> dom (files fs) \<union> directories fs" using path_kinds [OF assms(1)] None by (metis domIff)
  have "r_next_inode fs' = r_next_inode fs + 1" using None assms(3) by (auto simp: ramfs_create_file_attach)
  with p create_file_refines [OF assms(1,2) None, of now d] assms(3) show ?thesis by (auto simp: ram_abs_def)
next
  case (Some i)
  then have "p \<in> dom (files fs) \<union> directories fs" using path_kinds [OF assms(1)] by blast
  with Some assms show ?thesis by (auto simp: ramfs_create_file_def ram_abs_def)
qed

lemma apply_refines_mkdir:
  assumes "ramfs_ok fs" "room fs" "ramfs_mkdir now p fs = (r, fs')"
  shows "ramfs_ok fs' \<and> spec_apply (RMkdir p) (ram_abs fs) = (\<not> isl r, ram_abs fs')
    \<and> (r_next_inode fs' = r_next_inode fs \<or> r_next_inode fs' = r_next_inode fs + 1)"
proof (cases "r_path_map fs p")
  case None
  have p: "p \<notin> dom (files fs)" using path_kinds [OF assms(1)] None by (metis UnCI domIff)
  have "r_next_inode fs' = r_next_inode fs + 1" using None assms(3) ramfs_mkdir_attach [OF None, of now] by auto
  with p mkdir_refines [OF assms(1,2) None, of now] assms(3) show ?thesis by (auto simp: ram_abs_def)
next
  case (Some i)
  then have "p \<in> dom (files fs) \<union> directories fs" using path_kinds [OF assms(1)] by blast
  with Some assms show ?thesis by (auto simp: ramfs_mkdir_def ram_abs_def insert_absorb)
qed

lemma not_a_file:
  "ramfs_ok fs \<Longrightarrow> files fs p = None \<Longrightarrow> r_path_map fs p = Some i \<Longrightarrow>
    \<exists>n. r_inodes fs i = Some n \<and> i_type n = InDirectory"
proof -
  assume a: "ramfs_ok fs" "files fs p = None" "r_path_map fs p = Some i"
  then obtain n where n: "r_inodes fs i = Some n" "inode_ok fs p i n" using ramfs_okD(1) by blast
  with a show ?thesis by (cases "i_type n") (auto simp: files_def inode_ok_def)
qed

lemma apply_refines_write:
  assumes "ramfs_ok fs" "ram_apply now (RWrite p d) fs = (r, fs')"
  shows "ramfs_ok fs' \<and> spec_apply (RWrite p d) (ram_abs fs) = (\<not> isl r, ram_abs fs') \<and> r_next_inode fs' = r_next_inode fs"
proof (cases "files fs p")
  case None
  have "isl r \<and> fs' = fs"
  proof (cases "r_path_map fs p")
    case (Some i)
    from not_a_file [OF assms(1) None Some] Some assms(2) show ?thesis
      by (auto simp: ramfs_lookup_def ramfs_write_def)
  qed (use assms(2) in \<open>auto simp: ramfs_lookup_def\<close>)
  with None assms(1) show ?thesis by (auto simp: ram_abs_def)
next
  case (Some old)
  then obtain i where i: "r_path_map fs p = Some i" by (auto simp: files_def split: option.splits)
  have "r_next_inode fs' = r_next_inode fs"
    using assms(2) i by (auto simp: ramfs_lookup_def ramfs_write_def split: option.splits if_splits)
  with write_refines [OF assms(1) i Some, of now d] assms(2) i Some show ?thesis
    by (auto simp: ram_abs_def ramfs_lookup_def)
qed

lemma apply_refines_delete:
  assumes "ramfs_ok fs" "ramfs_delete p fs = (r, fs')"
  shows "ramfs_ok fs' \<and> spec_apply (RDelete p) (ram_abs fs) = (\<not> isl r, ram_abs fs') \<and> r_next_inode fs' = r_next_inode fs"
proof (cases "files fs p")
  case None
  have "isl r \<and> fs' = fs"
  proof (cases "r_path_map fs p")
    case (Some i)
    from not_a_file [OF assms(1) None Some] Some assms(2) show ?thesis by (auto simp: ramfs_delete_def)
  qed (use assms(2) in \<open>auto simp: ramfs_delete_def\<close>)
  with None assms(1) show ?thesis by (auto simp: ram_abs_def)
next
  case (Some old)
  with delete_refines [OF assms(1) Some] assms(2) show ?thesis by (auto simp: ram_abs_def)
qed

lemma apply_refines:
  assumes "ramfs_ok fs" "room fs" "ram_apply now x fs = (r, fs')"
  shows "ramfs_ok fs' \<and> spec_apply x (ram_abs fs) = (\<not> isl r, ram_abs fs')
    \<and> (r_next_inode fs' = r_next_inode fs \<or> r_next_inode fs' = r_next_inode fs + 1)"
proof (cases x)
  case (RMkdir p)
  with apply_refines_mkdir [OF assms(1,2), of now p r fs'] assms(3) show ?thesis by simp
next
  case (RCreate p d)
  with apply_refines_create [OF assms(1,2), of now p d r fs'] assms(3) show ?thesis by simp
next
  case (RWrite p d)
  with apply_refines_write [OF assms(1), of now p d r fs'] assms(3) show ?thesis by simp
next
  case (RDelete p)
  with apply_refines_delete [OF assms(1), of p r fs'] assms(3) show ?thesis by simp
qed

lemma ramfs_ok_new [simp]: "ramfs_ok (ramfs_new k)"
  by (simp add: ramfs_new_def ramfs_ok_def)

lemma ram_abs_new [simp]: "ram_abs (ramfs_new k) = (Map.empty, {})"
  by (auto simp: ramfs_new_def ram_abs_def files_def directories_def fun_eq_iff)

lemma room_bound: "unat (r_next_inode fs) + 1 < 2 ^ 64 \<Longrightarrow> room fs \<and> unat (r_next_inode fs + 1) = unat (r_next_inode fs) + 1"
  by (simp add: room_def word_less_nat_alt unat_word_ariths)

lemma run_refines:
  "ramfs_ok fs \<Longrightarrow> unat (r_next_inode fs) + length xs < 2 ^ 64 \<Longrightarrow> ram_run xs fs = (rs, fs') \<Longrightarrow>
   ramfs_ok fs' \<and> spec_run xs (ram_abs fs) = (rs, ram_abs fs')"
proof (induction xs arbitrary: fs rs)
  case (Cons nx xs)
  obtain now x where nx: "nx = (now, x)" by fastforce
  obtain r t where t: "ram_apply now x fs = (r, t)" by fastforce
  obtain rs' where rs': "ram_run xs t = (rs', fs')" "rs = (\<not> isl r) # rs'"
    using Cons.prems(3) by (auto simp: nx t split: prod.splits)
  have "room fs" "unat (r_next_inode fs + 1) = unat (r_next_inode fs) + 1"
    using room_bound [of fs] Cons.prems(2) by simp_all
  with apply_refines [OF Cons.prems(1) _ t] have t': "ramfs_ok t" "spec_apply x (ram_abs fs) = (\<not> isl r, ram_abs t)"
    "unat (r_next_inode t) \<le> unat (r_next_inode fs) + 1" by auto
  with Cons.IH [OF t'(1) _ rs'(1)] Cons.prems(2) show ?case by (simp add: nx rs'(2))
qed simp

text \<open>
  C37: the file system in memory is a map of files and a set of directories. Whatever is created,
  written, made and deleted, each operation succeeds exactly when the abstract one does, and the
  tree then holds exactly the files, with their contents, and the directories of the abstract
  state.
\<close>

theorem ramfs_refines_map:
  assumes "ram_run xs (ramfs_new 1) = (rs, fs)" "length xs < 2 ^ 64 - 1"
  shows "spec_run xs (Map.empty, {}) = (rs, files fs, directories fs)"
proof -
  have "r_next_inode (ramfs_new 1) = 1" by (simp add: ramfs_new_def)
  with run_refines [OF ramfs_ok_new [of 1] _ assms(1)] assms(2) have "spec_run xs (Map.empty, {}) = (rs, ram_abs fs)"
    by simp
  then show ?thesis by (simp add: ram_abs_def)
qed

theorem ramfs_refines_map_witness:
  "fst (ram_run [(0, RMkdir ''/''), (1, RCreate ''/a'' [1, 2]), (2, RWrite ''/a'' [3]), (3, RDelete ''/''), (4, RDelete ''/a'')]
     (ramfs_new 1)) = [True, True, True, False, True]"
proof -
  let ?xs = "[(0, RMkdir ''/''), (1, RCreate ''/a'' [1, 2]), (2, RWrite ''/a'' [3]), (3, RDelete ''/''), (4, RDelete ''/a'')]"
  obtain rs fs where r: "ram_run ?xs (ramfs_new 1) = (rs, fs)" by fastforce
  from ramfs_refines_map [OF r] show ?thesis by (simp add: r del: ram_run.simps)
qed

section \<open>Listing and reading\<close>

definition listed :: "ramfs \<Rightarrow> string \<Rightarrow> string set" where
  "listed fs path = {q. path_parent q = Some path \<and> (\<exists>i c. r_path_map fs path = Some i \<and> r_path_map fs q = Some c \<and> i < c)}"

lemma readdir_ok:
  assumes ok: "ramfs_ok fs" and d: "path \<in> directories fs"
  shows "\<exists>ps. ramfs_readdir path fs = Inr (map path_filename ps) \<and> distinct ps \<and> set ps = listed fs path"
proof -
  obtain i n where n: "r_path_map fs path = Some i" "r_inodes fs i = Some n" "i_type n = InDirectory"
    using d by (auto simp: directories_def)
  have okn: "inode_ok fs path i n" using ramfs_okD(1) [OF ok n(1)] n(2) by auto
  define path_of where "path_of = (\<lambda>c. SOME q. r_path_map fs q = Some c)"
  have path_of: "path_of c = q" if "r_path_map fs q = Some c" for q c
    using ramfs_okD(3) [OF ok that] by (simp add: path_of_def)
  have child: "\<exists>m. r_inodes fs c = Some m \<and> i_name m = path_filename (path_of c)" if "c \<in> kids fs path i" for c
    using that ramfs_okD(1) [OF ok] path_of by (fastforce simp: kids_def inode_ok_def)
  have names: "map i_name (List.map_filter (r_inodes fs) cs) = map (path_filename \<circ> path_of) cs"
    if "set cs \<subseteq> kids fs path i" for cs
    using that child by (induction cs) (force simp: List.map_filter_simps)+
  have "inj_on path_of (kids fs path i)"
    using path_of by (auto simp: inj_on_def kids_def)
  then have "distinct (map path_of (i_children n))" using okn by (simp add: inode_ok_def distinct_map)
  moreover have "path_of ` kids fs path i = listed fs path"
    using path_of n(1) by (force simp: kids_def listed_def)
  moreover have "ramfs_readdir path fs = Inr (map path_filename (map path_of (i_children n)))"
    using n names [of "i_children n"] okn by (simp add: ramfs_readdir_def inode_ok_def)
  ultimately show ?thesis using okn by (intro exI [of _ "map path_of (i_children n)"]) (simp add: inode_ok_def)
qed

lemma read_file_range:
  assumes "files fs path = Some data" "r_path_map fs path = Some ino"
  shows "ramfs_read ino offset len fs = Inr (take len (drop offset data))"
proof -
  obtain n where "r_inodes fs ino = Some n" "i_type n = InFile" "i_data n = data"
    using assms by (auto simp: files_def split: option.splits if_splits)
  then show ?thesis by (auto simp: ramfs_read_def subslice_def min_def Let_def)
qed

end
