(* ===== verification/Fs_Disk.thy ===== *)
theory Fs_Disk
  imports Pack_Types
begin

text \<open>
  The flat file system on a block device (\<open>kernel/src/drivers/diskfs.rs\<close>): the encrypted sector
  layer over the block devices, the layouts of the superblock and of the file entries, the
  allocation bitmap, and the operations on files. A block device is an array of sectors that
  refuses addresses beyond its capacity; a Rust panic (an index out of range, an underflow) is an
  error of its own.
\<close>

unbundle bit_operations_syntax

section \<open>Sectors\<close>

record encryption_engine =
  ee_key :: bytes
  ee_enabled :: bool

definition encrypt :: "encryption_engine \<Rightarrow> u64 \<Rightarrow> bytes \<Rightarrow> bytes" where
  "encrypt eng lba data =
     (if \<not> ee_enabled eng then data
      else map (\<lambda>i. data ! i XOR (ee_key eng ! (i mod 32) XOR (ucast lba + of_nat i))) [0..<length data])"

definition decrypt :: "encryption_engine \<Rightarrow> u64 \<Rightarrow> bytes \<Rightarrow> bytes" where
  "decrypt eng lba data =
     (if \<not> ee_enabled eng then data
      else map (\<lambda>i. data ! i XOR (ee_key eng ! (i mod 32) XOR (ucast lba + of_nat i))) [0..<length data])"

record disk =
  dk_capacity :: u64
  dk_sectors :: "u64 \<Rightarrow> bytes"

definition dev_read :: "u64 \<Rightarrow> disk \<Rightarrow> string + bytes" where
  "dev_read lba d = (if lba < dk_capacity d then Inr (dk_sectors d lba) else Inl ''LBA out of range'')"

definition dev_write :: "u64 \<Rightarrow> bytes \<Rightarrow> disk \<Rightarrow> (string + unit) \<times> disk" where
  "dev_write lba buf d =
     (if lba < dk_capacity d then (Inr (), d\<lparr>dk_sectors := (dk_sectors d)(lba := buf)\<rparr>)
      else (Inl ''LBA out of range'', d))"

record storage =
  st_nvme :: "disk option"
  st_ahci :: "disk option"
  st_ide :: "disk option"
  st_virtio :: "disk option"
  st_usb :: bool
  st_encryption :: encryption_engine

text \<open>A read tries the devices in turn until one succeeds; a write goes to the first one present.\<close>

definition try_read :: "u64 \<Rightarrow> disk option \<Rightarrow> (string + bytes) \<Rightarrow> string + bytes" where
  "try_read lba dev otherwise =
     (case dev of None \<Rightarrow> otherwise
      | Some d \<Rightarrow> (case dev_read lba d of Inl _ \<Rightarrow> otherwise | Inr buf \<Rightarrow> Inr buf))"

definition read_sector_internal :: "u64 \<Rightarrow> storage \<Rightarrow> string + bytes" where
  "read_sector_internal lba st =
     rbind (try_read lba (st_nvme st) (try_read lba (st_ahci st) (try_read lba (st_ide st)
       (case st_virtio st of None \<Rightarrow> Inl ''Block device not initialized'' | Some d \<Rightarrow> dev_read lba d))))
     (\<lambda>buf. Inr (decrypt (st_encryption st) lba buf))"

definition write_sector_internal :: "u64 \<Rightarrow> bytes \<Rightarrow> storage \<Rightarrow> (string + unit) \<times> storage" where
  "write_sector_internal lba buf st =
     (let encrypted_buf = encrypt (st_encryption st) lba buf in
      case st_nvme st of
        Some d \<Rightarrow> (case dev_write lba encrypted_buf d of (r, d) \<Rightarrow> (r, st\<lparr>st_nvme := Some d\<rparr>))
      | None \<Rightarrow> (case st_ahci st of
          Some d \<Rightarrow> (case dev_write lba encrypted_buf d of (r, d) \<Rightarrow> (r, st\<lparr>st_ahci := Some d\<rparr>))
        | None \<Rightarrow> (case st_ide st of
            Some d \<Rightarrow> (case dev_write lba encrypted_buf d of (r, d) \<Rightarrow> (r, st\<lparr>st_ide := Some d\<rparr>))
          | None \<Rightarrow> (case st_virtio st of
              Some d \<Rightarrow> (case dev_write lba encrypted_buf d of (r, d) \<Rightarrow> (r, st\<lparr>st_virtio := Some d\<rparr>))
            | None \<Rightarrow> (Inl ''Block device not initialized'', st)))))"

section \<open>Sector stores\<close>

text \<open>
  The contract of the layer, for blocks of a given size: a sector that was written can be read, and no other sector changes.
  The runs of sectors that the file system reads and writes follow from it.
\<close>

fun write_run :: "(u64 \<Rightarrow> bytes \<Rightarrow> 's \<Rightarrow> (string + unit) \<times> 's) \<Rightarrow> u64 \<Rightarrow> bytes list \<Rightarrow> 's \<Rightarrow> (string + unit) \<times> 's" where
  "write_run wr a [] s = (Inr (), s)"
| "write_run wr a (b # bs) s = sbind (wr a b s) (\<lambda>_ s. write_run wr (a + 1) bs s)"

fun read_run :: "(u64 \<Rightarrow> 's \<Rightarrow> string + bytes) \<Rightarrow> u64 \<Rightarrow> nat \<Rightarrow> 's \<Rightarrow> string + bytes list" where
  "read_run rd a 0 s = Inr []"
| "read_run rd a (Suc n) s = rbind (rd a s) (\<lambda>b. rbind (read_run rd (a + 1) n s) (\<lambda>bs. Inr (b # bs)))"

definition run_addrs :: "u64 \<Rightarrow> nat \<Rightarrow> u64 set" where
  "run_addrs a n = (\<lambda>i. a + of_nat i) ` {..<n}"

lemma run_addrs_simps [simp]:
  "run_addrs a 0 = {}" "run_addrs a (Suc n) = insert a (run_addrs (a + 1) n)"
proof -
  show "run_addrs a 0 = {}" by (simp add: run_addrs_def)
  have "{..<Suc n} = insert 0 (Suc ` {..<n})" by (rule lessThan_Suc_eq_insert_0)
  then show "run_addrs a (Suc n) = insert a (run_addrs (a + 1) n)"
    by (simp add: run_addrs_def image_image ac_simps)
qed

lemma run_addrs_head: "n < 2 ^ 64 \<Longrightarrow> a \<notin> run_addrs (a + 1) n"
proof
  assume n: "n < 2 ^ 64" and "a \<in> run_addrs (a + 1) n"
  then obtain i where i: "i < n" "a = a + 1 + of_nat i" by (auto simp: run_addrs_def)
  then have "(of_nat (Suc i) :: u64) = 0" by (simp add: add.assoc)
  then have "unat (of_nat (Suc i) :: u64) = 0" by simp
  moreover have "Suc i < 2 ^ 64" using n i(1) by simp
  then have "unat (of_nat (Suc i) :: u64) = Suc i" by (intro unat_of_nat_less) simp
  ultimately show False by simp
qed

locale sector_store =
  fixes block_size :: nat
    and rd :: "u64 \<Rightarrow> 's \<Rightarrow> string + bytes"
    and wr :: "u64 \<Rightarrow> bytes \<Rightarrow> 's \<Rightarrow> (string + unit) \<times> 's"
  assumes wr_same: "length b = block_size \<Longrightarrow> wr a b s = (Inr (), s') \<Longrightarrow> rd a s' = Inr b"
    and wr_other: "wr a b s = (Inr (), s') \<Longrightarrow> a' \<noteq> a \<Longrightarrow> rd a' s' = rd a' s"
begin

lemma write_run_other:
  "write_run wr a bs s = (Inr (), s') \<Longrightarrow> x \<notin> run_addrs a (length bs) \<Longrightarrow> rd x s' = rd x s"
proof (induction bs arbitrary: a s)
  case (Cons b bs)
  then obtain t where t: "wr a b s = (Inr (), t)" "write_run wr (a + 1) bs t = (Inr (), s')"
    by (auto simp: sbind_Inr_iff)
  from Cons.IH [OF t(2)] wr_other [OF t(1), of x] Cons.prems(2) show ?case by simp
qed simp

lemma write_run_readable:
  "write_run wr a bs s = (Inr (), s') \<Longrightarrow> \<forall>b \<in> set bs. length b = block_size \<Longrightarrow> rd x s = Inr c \<Longrightarrow> \<exists>c'. rd x s' = Inr c'"
proof (induction bs arbitrary: a s c)
  case (Cons b bs)
  then obtain t where t: "wr a b s = (Inr (), t)" "write_run wr (a + 1) bs t = (Inr (), s')"
    by (auto simp: sbind_Inr_iff)
  have "\<exists>c. rd x t = Inr c"
    using wr_other [OF t(1), of x] wr_same [OF _ t(1)] Cons.prems(2,3) by (cases "x = a") simp_all
  with Cons.IH [OF t(2)] Cons.prems(2) show ?case by auto
qed simp

lemma read_run_cong: "\<forall>x \<in> run_addrs a n. rd x s = rd x s' \<Longrightarrow> read_run rd a n s = read_run rd a n s'"
  by (induction n arbitrary: a) simp_all

lemma write_run_same:
  "write_run wr a bs s = (Inr (), s') \<Longrightarrow> \<forall>b \<in> set bs. length b = block_size \<Longrightarrow> length bs < 2 ^ 64 \<Longrightarrow>
   read_run rd a (length bs) s' = Inr bs"
proof (induction bs arbitrary: a s)
  case (Cons b bs)
  then obtain t where t: "wr a b s = (Inr (), t)" "write_run wr (a + 1) bs t = (Inr (), s')"
    by (auto simp: sbind_Inr_iff)
  have "rd a s' = Inr b"
    using write_run_other [OF t(2), of a] run_addrs_head [of "length bs" a] wr_same [OF _ t(1)] Cons.prems by simp
  with Cons.IH [OF t(2)] Cons.prems show ?case by simp
qed simp

end

lemma dev_write_ok: "dev_write a b d = (Inr (), d') \<longleftrightarrow> a < dk_capacity d \<and> d' = d\<lparr>dk_sectors := (dk_sectors d)(a := b)\<rparr>"
  by (auto simp: dev_write_def)

lemma dev_read_upd:
  "dev_read a' (d\<lparr>dk_sectors := (dk_sectors d)(a := b)\<rparr>) = (if a' = a \<and> a < dk_capacity d then Inr b else dev_read a' d)"
  by (auto simp: dev_read_def)

lemma try_read_upd:
  "a < dk_capacity d \<Longrightarrow> try_read a (Some (d\<lparr>dk_sectors := (dk_sectors d)(a := b)\<rparr>)) x = Inr b"
  "a' \<noteq> a \<Longrightarrow> try_read a' (Some (d\<lparr>dk_sectors := (dk_sectors d)(a := b)\<rparr>)) x = try_read a' (Some d) x"
  by (simp_all add: try_read_def dev_read_upd)

lemma try_read_None [simp]: "try_read a None x = x"
  by (simp add: try_read_def)

text \<open>A successful write changes one sector of one device, the first one present.\<close>

lemma write_sector_cases:
  assumes "write_sector_internal a b s = (Inr (), s')"
  obtains d where "st_nvme s = Some d" "a < dk_capacity d"
      "s' = s\<lparr>st_nvme := Some (d\<lparr>dk_sectors := (dk_sectors d)(a := encrypt (st_encryption s) a b)\<rparr>)\<rparr>"
    | d where "st_nvme s = None" "st_ahci s = Some d" "a < dk_capacity d"
      "s' = s\<lparr>st_ahci := Some (d\<lparr>dk_sectors := (dk_sectors d)(a := encrypt (st_encryption s) a b)\<rparr>)\<rparr>"
    | d where "st_nvme s = None" "st_ahci s = None" "st_ide s = Some d" "a < dk_capacity d"
      "s' = s\<lparr>st_ide := Some (d\<lparr>dk_sectors := (dk_sectors d)(a := encrypt (st_encryption s) a b)\<rparr>)\<rparr>"
    | d where "st_nvme s = None" "st_ahci s = None" "st_ide s = None" "st_virtio s = Some d" "a < dk_capacity d"
      "s' = s\<lparr>st_virtio := Some (d\<lparr>dk_sectors := (dk_sectors d)(a := encrypt (st_encryption s) a b)\<rparr>)\<rparr>"
proof (cases "st_nvme s")
  case (Some d)
  with assms that(1) show ?thesis by (auto simp: write_sector_internal_def dev_write_def Let_def split: if_splits)
next
  case nvme: None
  show ?thesis
  proof (cases "st_ahci s")
    case (Some d)
    with nvme assms that(2) show ?thesis by (auto simp: write_sector_internal_def dev_write_def Let_def split: if_splits)
  next
    case ahci: None
    show ?thesis
    proof (cases "st_ide s")
      case (Some d)
      with nvme ahci assms that(3) show ?thesis
        by (auto simp: write_sector_internal_def dev_write_def Let_def split: if_splits)
    next
      case ide: None
      from nvme ahci ide assms that(4) show ?thesis
        by (cases "st_virtio s") (auto simp: write_sector_internal_def dev_write_def Let_def split: if_splits)
    qed
  qed
qed

lemma decrypt_encrypt: "decrypt eng lba (encrypt eng lba data) = data"
  by (auto simp: encrypt_def decrypt_def xor.assoc intro!: nth_equalityI)

interpretation disk_sectors: sector_store 512 read_sector_internal write_sector_internal
proof
  fix a a' b and s s' :: storage
  assume w: "write_sector_internal a b s = (Inr (), s')"
  show "read_sector_internal a s' = Inr b"
    using w by (rule write_sector_cases)
      (simp_all add: read_sector_internal_def try_read_upd dev_read_upd decrypt_encrypt)
  assume ne: "a' \<noteq> a"
  show "read_sector_internal a' s' = read_sector_internal a' s"
    using w by (rule write_sector_cases) (simp_all add: read_sector_internal_def try_read_upd dev_read_upd ne)
qed

section \<open>Layouts\<close>

abbreviation DISKFS_MAGIC :: u32 where "DISKFS_MAGIC \<equiv> 0x534D4654"
abbreviation DISKFS_VERSION :: u32 where "DISKFS_VERSION \<equiv> 1"
abbreviation MAX_FILES :: nat where "MAX_FILES \<equiv> 64"
abbreviation BITMAP_START :: u64 where "BITMAP_START \<equiv> 1"
abbreviation BITMAP_SECTORS :: nat where "BITMAP_SECTORS \<equiv> 4"
abbreviation ENTRY_START :: u64 where "ENTRY_START \<equiv> 5"
abbreviation DATA_START :: nat where "DATA_START \<equiv> 69"
abbreviation MAX_NAME_LEN :: nat where "MAX_NAME_LEN \<equiv> 120"
abbreviation SECTOR_SIZE :: nat where "SECTOR_SIZE \<equiv> 512"

datatype disk_error = IoErr string | Panic

fun io_err :: "string + 'a \<Rightarrow> disk_error + 'a" where
  "io_err (Inl e) = Inl (IoErr e)"
| "io_err (Inr x) = Inr x"

record superblock =
  sb_magic :: u32
  sb_version :: u32
  sb_file_count :: u32
  sb_total_sectors :: u32
  sb_reserved :: bytes

definition superblock_bytes :: "superblock \<Rightarrow> bytes" where
  "superblock_bytes sb = to_le_bytes (sb_magic sb) @ to_le_bytes (sb_version sb) @ to_le_bytes (sb_file_count sb)
     @ to_le_bytes (sb_total_sectors sb) @ sb_reserved sb"

definition superblock_of :: "bytes \<Rightarrow> superblock" where
  "superblock_of buf = \<lparr>sb_magic = from_le_bytes (subslice 0 4 buf), sb_version = from_le_bytes (subslice 4 4 buf),
     sb_file_count = from_le_bytes (subslice 8 4 buf), sb_total_sectors = from_le_bytes (subslice 12 4 buf),
     sb_reserved = drop 16 buf\<rparr>"

text \<open>The layout of an entry: the compiler pads the flags to the alignment of the size; the padding is
  never read and is zero here.\<close>

record file_entry =
  fe_name :: bytes
  fe_flags :: u32
  fe_size :: u64
  fe_start_sector :: u64
  fe_sector_count :: u64
  fe_reserved :: bytes

definition zeroed_entry :: file_entry where
  "zeroed_entry = \<lparr>fe_name = replicate MAX_NAME_LEN 0, fe_flags = 0, fe_size = 0, fe_start_sector = 0,
     fe_sector_count = 0, fe_reserved = replicate 360 0\<rparr>"

definition entry_bytes :: "file_entry \<Rightarrow> bytes" where
  "entry_bytes e = fe_name e @ to_le_bytes (fe_flags e) @ replicate 4 0 @ to_le_bytes (fe_size e)
     @ to_le_bytes (fe_start_sector e) @ to_le_bytes (fe_sector_count e) @ fe_reserved e"

definition entry_of :: "bytes \<Rightarrow> file_entry" where
  "entry_of buf = \<lparr>fe_name = subslice 0 120 buf, fe_flags = from_le_bytes (subslice 120 4 buf),
     fe_size = from_le_bytes (subslice 128 8 buf), fe_start_sector = from_le_bytes (subslice 136 8 buf),
     fe_sector_count = from_le_bytes (subslice 144 8 buf), fe_reserved = drop 152 buf\<rparr>"

definition is_active :: "file_entry \<Rightarrow> bool" where
  "is_active e = (fe_flags e = 1)"

definition name_str :: "file_entry \<Rightarrow> bytes" where
  "name_str e = (let nm = takeWhile (\<lambda>b. b \<noteq> 0) (take MAX_NAME_LEN (fe_name e)) in if utf8_valid nm then nm else [])"

definition set_name :: "bytes \<Rightarrow> file_entry \<Rightarrow> file_entry" where
  "set_name name e =
     (let len = min (length name) (MAX_NAME_LEN - 1)
      in e\<lparr>fe_name := take len name @ replicate (MAX_NAME_LEN - len) 0\<rparr>)"

record diskfs =
  df_entries :: "file_entry list"
  df_bitmap :: bytes
  df_total_sectors :: u64

section \<open>The allocation bitmap\<close>

definition bm_test :: "bytes \<Rightarrow> nat \<Rightarrow> bool" where
  "bm_test bm s = (bm ! (s div 8) AND push_bit (s mod 8) 1 \<noteq> 0)"

definition bm_set :: "nat \<Rightarrow> bytes \<Rightarrow> bytes" where
  "bm_set s bm = bm[s div 8 := bm ! (s div 8) OR push_bit (s mod 8) 1]"

definition bm_clear :: "nat \<Rightarrow> bytes \<Rightarrow> bytes" where
  "bm_clear s bm = bm[s div 8 := bm ! (s div 8) AND NOT (push_bit (s mod 8) 1)]"

text \<open>The scan for a run of free sectors: \<open>None\<close> is the panic beyond the end of the bitmap.\<close>

fun alloc_scan :: "nat \<Rightarrow> nat list \<Rightarrow> nat \<Rightarrow> nat \<Rightarrow> bytes \<Rightarrow> nat option option" where
  "alloc_scan count [] run_start run_len bm = Some None"
| "alloc_scan count (s # ss) run_start run_len bm =
     (if length bm \<le> s div 8 then None
      else if \<not> bm_test bm s then
        (let run_start = (if run_len = 0 then s else run_start); run_len = run_len + 1
         in if count \<le> run_len then Some (Some run_start) else alloc_scan count ss run_start run_len bm)
      else alloc_scan count ss run_start 0 bm)"

definition alloc_sectors :: "nat \<Rightarrow> diskfs \<Rightarrow> (nat option \<times> diskfs) option" where
  "alloc_sectors count fs =
     (case alloc_scan count [DATA_START..<unat (df_total_sectors fs)] DATA_START 0 (df_bitmap fs) of
        None \<Rightarrow> None
      | Some None \<Rightarrow> Some (None, fs)
      | Some (Some run_start) \<Rightarrow>
          Some (Some run_start, fs\<lparr>df_bitmap := fold bm_set [run_start..<run_start + count] (df_bitmap fs)\<rparr>))"

definition free_sectors :: "nat \<Rightarrow> nat \<Rightarrow> diskfs \<Rightarrow> diskfs option" where
  "free_sectors start count fs =
     (if \<exists>s \<in> set [start..<start + count]. length (df_bitmap fs) \<le> s div 8 then None
      else Some (fs\<lparr>df_bitmap := fold bm_clear [start..<start + count] (df_bitmap fs)\<rparr>))"

section \<open>Operations\<close>

definition sync_entry :: "nat \<Rightarrow> diskfs \<Rightarrow> storage \<Rightarrow> (string + unit) \<times> storage" where
  "sync_entry slot fs st = write_sector_internal (ENTRY_START + of_nat slot) (entry_bytes (df_entries fs ! slot)) st"

definition bitmap_sectors :: "bytes \<Rightarrow> bytes list" where
  "bitmap_sectors bm = map (\<lambda>i. subslice (i * SECTOR_SIZE) SECTOR_SIZE bm) [0..<BITMAP_SECTORS]"

definition sync_bitmap :: "diskfs \<Rightarrow> storage \<Rightarrow> (string + unit) \<times> storage" where
  "sync_bitmap fs st = write_run write_sector_internal BITMAP_START (bitmap_sectors (df_bitmap fs)) st"

definition new_superblock :: "nat \<Rightarrow> u64 \<Rightarrow> superblock" where
  "new_superblock files total_sectors = \<lparr>sb_magic = DISKFS_MAGIC, sb_version = DISKFS_VERSION, sb_file_count = of_nat files,
     sb_total_sectors = ucast total_sectors, sb_reserved = replicate 496 0\<rparr>"

definition sync_superblock :: "diskfs \<Rightarrow> storage \<Rightarrow> (string + unit) \<times> storage" where
  "sync_superblock fs st = write_sector_internal 0
     (superblock_bytes (new_superblock (length (filter is_active (df_entries fs))) (df_total_sectors fs))) st"

text \<open>The three writes that make a change of the metadata permanent.\<close>

definition sync_all :: "nat \<Rightarrow> diskfs \<Rightarrow> storage \<Rightarrow> (string + unit) \<times> storage" where
  "sync_all slot fs st =
     sbind (sync_entry slot fs st) (\<lambda>_ st. sbind (sync_bitmap fs st) (\<lambda>_ st. sync_superblock fs st))"

definition disk_format :: "u64 \<Rightarrow> storage \<Rightarrow> (string + diskfs) \<times> storage" where
  "disk_format total_sectors st =
     (let empty = replicate SECTOR_SIZE 0;
          bitmap = fold bm_set [0..<DATA_START] (replicate (BITMAP_SECTORS * SECTOR_SIZE) 0) in
      sbind (write_sector_internal 0 (superblock_bytes (new_superblock 0 total_sectors)) st) (\<lambda>_ st.
      sbind (write_run write_sector_internal BITMAP_START (replicate BITMAP_SECTORS empty) st) (\<lambda>_ st.
      sbind (write_run write_sector_internal ENTRY_START (replicate MAX_FILES empty) st) (\<lambda>_ st.
      sbind (write_run write_sector_internal BITMAP_START (bitmap_sectors bitmap) st) (\<lambda>_ st.
        (Inr \<lparr>df_entries = replicate MAX_FILES zeroed_entry, df_bitmap = bitmap, df_total_sectors = total_sectors\<rparr>, st))))))"

definition read_superblock :: "storage \<Rightarrow> string + superblock" where
  "read_superblock st = rbind (read_sector_internal 0 st) (\<lambda>buf. Inr (superblock_of buf))"

definition disk_mount :: "storage \<Rightarrow> string + diskfs" where
  "disk_mount st =
     rbind (read_superblock st) (\<lambda>sb.
       if sb_magic sb \<noteq> DISKFS_MAGIC then Inl ''No filesystem found''
       else rbind (read_run read_sector_internal BITMAP_START BITMAP_SECTORS st) (\<lambda>bm.
         rbind (read_run read_sector_internal ENTRY_START MAX_FILES st) (\<lambda>es.
           Inr \<lparr>df_entries = map entry_of es, df_bitmap = concat bm,
                df_total_sectors = ucast (sb_total_sectors sb)\<rparr>)))"

definition list_files :: "diskfs \<Rightarrow> bytes list" where
  "list_files fs = map name_str (filter is_active (df_entries fs))"

definition patch :: "nat \<Rightarrow> 'a list \<Rightarrow> 'a list \<Rightarrow> 'a list" where
  "patch offset ys xs = take offset xs @ ys @ drop (offset + length ys) xs"

fun read_loop :: "storage \<Rightarrow> file_entry \<Rightarrow> nat list \<Rightarrow> bytes \<Rightarrow> disk_error + bytes" where
  "read_loop st e [] data = Inr data"
| "read_loop st e (i # ns) data =
     rbind (io_err (read_sector_internal (fe_start_sector e + of_nat i) st)) (\<lambda>buf.
       let offset = i * SECTOR_SIZE in
       if unat (fe_size e) < offset then Inl Panic
       else let copy_len = min (unat (fe_size e) - offset) SECTOR_SIZE
            in read_loop st e ns (patch offset (take copy_len buf) data))"

definition named :: "bytes \<Rightarrow> file_entry \<Rightarrow> bool" where
  "named name e = (is_active e \<and> name_str e = name)"

definition disk_read_file :: "bytes \<Rightarrow> diskfs \<Rightarrow> storage \<Rightarrow> disk_error + bytes" where
  "disk_read_file name fs st =
     (case find (named name) (df_entries fs) of
        None \<Rightarrow> Inl (IoErr ''File not found'')
      | Some entry \<Rightarrow> read_loop st entry [0..<unat (fe_sector_count entry)] (replicate (unat (fe_size entry)) 0))"

fun position :: "('a \<Rightarrow> bool) \<Rightarrow> 'a list \<Rightarrow> nat option" where
  "position P [] = None"
| "position P (x # xs) = (if P x then Some 0 else map_option Suc (position P xs))"

fun with_fs :: "diskfs \<Rightarrow> (string + 'a) \<times> storage \<Rightarrow> (disk_error + 'a) \<times> diskfs \<times> storage" where
  "with_fs fs (r, st) = (io_err r, fs, st)"

definition disk_delete_file :: "bytes \<Rightarrow> diskfs \<Rightarrow> storage \<Rightarrow> (disk_error + unit) \<times> diskfs \<times> storage" where
  "disk_delete_file name fs st =
     (case position (named name) (df_entries fs) of
        None \<Rightarrow> (Inl (IoErr ''File not found''), fs, st)
      | Some slot \<Rightarrow>
          let e = df_entries fs ! slot in
          case free_sectors (unat (fe_start_sector e)) (unat (fe_sector_count e)) fs of
            None \<Rightarrow> (Inl Panic, fs, st)
          | Some fs \<Rightarrow>
              let fs = fs\<lparr>df_entries := (df_entries fs)[slot := zeroed_entry]\<rparr>
              in with_fs fs (sync_all slot fs st))"

definition sectors_needed :: "bytes \<Rightarrow> nat" where
  "sectors_needed data = (length data + SECTOR_SIZE - 1) div SECTOR_SIZE"

definition data_sector :: "bytes \<Rightarrow> nat \<Rightarrow> bytes" where
  "data_sector data i =
     (let offset = i * SECTOR_SIZE; copy_len = min (length data - offset) SECTOR_SIZE
      in patch 0 (subslice offset copy_len data) (replicate SECTOR_SIZE 0))"

definition disk_store :: "bytes \<Rightarrow> bytes \<Rightarrow> diskfs \<Rightarrow> storage \<Rightarrow> (disk_error + unit) \<times> diskfs \<times> storage" where
  "disk_store name data fs st =
     (case position (\<lambda>e. \<not> is_active e) (df_entries fs) of
        None \<Rightarrow> (Inl (IoErr ''No free file entries''), fs, st)
      | Some slot \<Rightarrow>
          let needed = sectors_needed data; count = max needed 1 in
          case alloc_sectors count fs of
            None \<Rightarrow> (Inl Panic, fs, st)
          | Some (None, fs) \<Rightarrow> (Inl (IoErr ''No free sectors''), fs, st)
          | Some (Some start, fs) \<Rightarrow>
              sbind (with_fs fs (write_run write_sector_internal (of_nat start) (map (data_sector data) [0..<needed]) st))
                (\<lambda>_ (fs, st).
                  let e = (set_name name (df_entries fs ! slot))\<lparr>fe_flags := 1, fe_size := of_nat (length data),
                             fe_start_sector := of_nat start, fe_sector_count := of_nat count\<rparr>;
                      fs = fs\<lparr>df_entries := (df_entries fs)[slot := e]\<rparr>
                  in with_fs fs (sync_all slot fs st)))"

definition disk_write_file :: "bytes \<Rightarrow> bytes \<Rightarrow> diskfs \<Rightarrow> storage \<Rightarrow> (disk_error + unit) \<times> diskfs \<times> storage" where
  "disk_write_file name data fs st =
     (if \<exists>e \<in> set (df_entries fs). named name e
      then sbind (disk_delete_file name fs st) (\<lambda>_ (fs, st). disk_store name data fs st)
      else disk_store name data fs st)"

text \<open>
  The choice of the device and the mount at boot; an NVMe device reports a fixed capacity
  (\<open>drivers/nvme.rs\<close>). \<open>pro\<close> tells whether the edition has encryption
  and \<open>tpm\<close> is the key from the security chip, if there is one.
\<close>

definition init_encryption :: "bool \<Rightarrow> bytes option \<Rightarrow> storage \<Rightarrow> storage" where
  "init_encryption pro tpm st =
     (if \<not> pro then st
      else st\<lparr>st_encryption := \<lparr>ee_key = (case tpm of Some key \<Rightarrow> key | None \<Rightarrow> replicate 32 0xAC), ee_enabled = True\<rparr>\<rparr>)"

definition primary_capacity :: "storage \<Rightarrow> u64 option" where
  "primary_capacity st =
     (case st_nvme st of Some d \<Rightarrow> Some (1024 * 1024)
      | None \<Rightarrow> if st_ahci st \<noteq> None then Some (1024 * 1024 * 200)
        else if st_usb st then Some (1024 * 1024 * 32)
        else case st_ide st of Some d \<Rightarrow> Some (dk_capacity d)
        | None \<Rightarrow> map_option dk_capacity (st_virtio st))"

definition disk_init :: "bool \<Rightarrow> bytes option \<Rightarrow> storage \<Rightarrow> diskfs option \<times> storage" where
  "disk_init pro tpm st =
     (case primary_capacity st of
        None \<Rightarrow> (None, st)
      | Some total_sectors \<Rightarrow>
          let st = init_encryption pro tpm st in
          case disk_mount st of
            Inr fs \<Rightarrow> (Some fs, st)
          | Inl _ \<Rightarrow>
              if total_sectors = 0 then (None, st)
              else case disk_format total_sectors st of (Inr fs, st) \<Rightarrow> (Some fs, st) | (Inl _, st) \<Rightarrow> (None, st))"

end
