(* ===== verification/Fs_Disk_Files.thy ===== *)
theory Fs_Disk_Files
  imports Fs_Disk
begin

text \<open>
  Correctness of the flat file system of \<open>Fs_Disk\<close>: the layouts can be read back, the bitmap is a set
  of sectors, a write replaces one file of a map of files and survives a restart, and what a new
  encryption key does to the disk.
\<close>

unbundle bit_operations_syntax

section \<open>Layout round trips\<close>

definition entry_fit :: "file_entry \<Rightarrow> bool" where
  "entry_fit e \<longleftrightarrow> length (fe_name e) = MAX_NAME_LEN \<and> length (fe_reserved e) = 360"

lemma length_entry_bytes: "entry_fit e \<Longrightarrow> length (entry_bytes e) = 512"
  by (simp add: entry_fit_def entry_bytes_def)

lemma entry_round_trip: "entry_fit e \<Longrightarrow> entry_of (entry_bytes e) = e"
  by (simp add: entry_fit_def entry_bytes_def entry_of_def subslice_def)

lemma superblock_round_trip:
  "length (superblock_bytes (new_superblock n t)) = 512"
  "superblock_of (superblock_bytes (new_superblock n t)) = new_superblock n t"
  by (simp_all add: superblock_bytes_def superblock_of_def new_superblock_def subslice_def)

lemma zeroed_entry_fit [simp]: "entry_fit zeroed_entry" "\<not> is_active zeroed_entry"
  by (simp_all add: entry_fit_def zeroed_entry_def is_active_def)

lemma le_bytes_0: "le_bytes n 0 = replicate n 0"
  by (induction n) simp_all

lemma entry_bytes_zeroed: "entry_bytes zeroed_entry = replicate 512 0"
  by (simp add: entry_bytes_def zeroed_entry_def to_le_bytes_def le_bytes_0 flip: replicate_add)

lemma bitmap_round_trip: "length bm = 2048 \<Longrightarrow> concat (bitmap_sectors bm) = bm \<and> (\<forall>b \<in> set (bitmap_sectors bm). length b = 512)"
proof -
  assume len: "length bm = 2048"
  have "bitmap_sectors bm = [subslice 0 512 bm, subslice 512 512 bm, subslice 1024 512 bm, subslice 1536 512 bm]"
    by (simp add: bitmap_sectors_def upt_rec)
  moreover have "subslice 0 (512 + 512 + 512 + 512) bm = bm" using len by (simp add: subslice_def)
  ultimately show ?thesis using len unfolding subslice_append by simp
qed

lemma set_name_fit: "entry_fit e \<Longrightarrow> entry_fit (set_name nm e)"
  by (auto simp: entry_fit_def set_name_def Let_def)

definition name_fit :: "bytes \<Rightarrow> bool" where
  "name_fit nm \<longleftrightarrow> length nm < MAX_NAME_LEN \<and> 0 \<notin> set nm \<and> utf8_valid nm"

lemma name_str_set_name:
  assumes "name_fit nm"
  shows "name_str (set_name nm e) = nm"
proof -
  have "takeWhile (\<lambda>b. b \<noteq> 0) (nm @ replicate k (0 :: u8)) = nm" if "0 < k" for k
    using that assms by (cases k) (auto simp: name_fit_def takeWhile_append takeWhile_eq_all_conv [THEN iffD2])
  with assms show ?thesis by (simp add: name_str_def set_name_def name_fit_def Let_def)
qed

section \<open>Bitmap facts\<close>

lemma bm_test_bit: "bm_test bm s \<longleftrightarrow> bit (bm ! (s div 8)) (s mod 8)"
proof -
  have "w AND push_bit n 1 \<noteq> 0 \<longleftrightarrow> bit w n" if "n < 8" for w :: u8 and n
  proof -
    have w: "w AND push_bit n 1 = push_bit n (of_bool (bit w n))"
      by (rule bit_word_eqI) (auto simp: bit_simps)
    have "bit (push_bit n (1 :: u8)) n" using that by (simp add: bit_simps)
    then have "push_bit n (1 :: u8) \<noteq> 0" by (metis bit_0_eq bot_apply bot_bool_def)
    then show ?thesis unfolding w by simp
  qed
  then show ?thesis by (simp add: bm_test_def)
qed

lemma length_bm [simp]: "length (bm_set s bm) = length bm" "length (bm_clear s bm) = length bm"
  by (simp_all add: bm_set_def bm_clear_def)

lemma div_mod_eq8: "(s :: nat) div 8 = t div 8 \<Longrightarrow> s mod 8 = t mod 8 \<Longrightarrow> s = t"
  by (metis div_mult_mod_eq)

lemma bm_test_set: "s div 8 < length bm \<Longrightarrow> bm_test (bm_set s bm) t \<longleftrightarrow> t = s \<or> bm_test bm t"
  using div_mod_eq8 [of t s] by (auto simp: bm_test_bit bm_set_def nth_list_update bit_simps)

lemma bm_test_clear: "s div 8 < length bm \<Longrightarrow> bm_test (bm_clear s bm) t \<longleftrightarrow> t \<noteq> s \<and> bm_test bm t"
  using div_mod_eq8 [of t s] by (auto simp: bm_test_bit bm_clear_def nth_list_update bit_simps)

lemma fold_bm_set:
  "\<forall>s \<in> set ss. s div 8 < length bm \<Longrightarrow>
   length (fold bm_set ss bm) = length bm \<and> (bm_test (fold bm_set ss bm) t \<longleftrightarrow> t \<in> set ss \<or> bm_test bm t)"
  by (induction ss arbitrary: bm) (auto simp: bm_test_set)

lemma fold_bm_clear:
  "\<forall>s \<in> set ss. s div 8 < length bm \<Longrightarrow>
   length (fold bm_clear ss bm) = length bm \<and> (bm_test (fold bm_clear ss bm) t \<longleftrightarrow> t \<notin> set ss \<and> bm_test bm t)"
  by (induction ss arbitrary: bm) (auto simp: bm_test_clear)

definition run_free :: "bytes \<Rightarrow> nat \<Rightarrow> nat \<Rightarrow> bool" where
  "run_free bm a n \<longleftrightarrow> (\<forall>s. a \<le> s \<and> s < a + n \<longrightarrow> \<not> bm_test bm s \<and> s div 8 < length bm)"

lemma run_free_0 [simp]: "run_free bm a 0"
  unfolding run_free_def by (intro allI impI) linarith

lemma run_free_Suc:
  "run_free bm a n \<Longrightarrow> \<not> bm_test bm (a + n) \<Longrightarrow> (a + n) div 8 < length bm \<Longrightarrow> run_free bm a (Suc n)"
  unfolding run_free_def by (metis add_Suc_right less_Suc_eq)

lemma alloc_scan_free:
  assumes "alloc_scan count [k..<m] a n bm = Some (Some r)" "n < count" "n = 0 \<or> a + n = k \<and> lo \<le> a" "lo \<le> k"
    "run_free bm a n"
  shows "lo \<le> r \<and> r + count \<le> m \<and> run_free bm r count"
  using assms
proof (induction "m - k" arbitrary: k a n)
  case 0
  then show ?case by simp
next
  case (Suc d)
  then have km: "k < m" by simp
  note scan = Suc.prems(1) [unfolded upt_conv_Cons [OF km] alloc_scan.simps Let_def]
  have len: "k div 8 < length bm" using scan by (auto split: if_splits)
  show ?case
  proof (cases "bm_test bm k")
    case True
    with scan len have "alloc_scan count [Suc k..<m] a 0 bm = Some (Some r)" by simp
    with Suc.hyps(1) [of "Suc k" a 0] Suc.hyps(2) Suc.prems(2,4) show ?thesis by simp
  next
    case False
    let ?a = "if n = 0 then k else a"
    have free: "run_free bm ?a (n + 1)"
      using run_free_Suc [of bm ?a n] Suc.prems(3,5) False len by (auto split: if_splits)
    show ?thesis
    proof (cases "count \<le> n + 1")
      case True
      with scan False len Suc.prems(2) have "r = ?a" "count = n + 1" by (simp_all split: if_splits)
      with free km Suc.prems(3,4) show ?thesis by (auto split: if_splits)
    next
      case go: False
      with scan False len have "alloc_scan count [Suc k..<m] ?a (n + 1) bm = Some (Some r)" by simp
      with Suc.hyps(1) [of "Suc k" ?a "n + 1"] Suc.hyps(2) Suc.prems(3,4) go free show ?thesis by auto
    qed
  qed
qed

lemma alloc_sectors_free:
  assumes "alloc_sectors count fs = Some (Some start, fs')" "0 < count"
  shows "DATA_START \<le> start" "start + count \<le> unat (df_total_sectors fs)"
    "run_free (df_bitmap fs) start count"
    "df_entries fs' = df_entries fs" "df_total_sectors fs' = df_total_sectors fs"
    "length (df_bitmap fs') = length (df_bitmap fs)"
    "bm_test (df_bitmap fs') t \<longleftrightarrow> start \<le> t \<and> t < start + count \<or> bm_test (df_bitmap fs) t"
proof -
  have scan: "alloc_scan count [DATA_START..<unat (df_total_sectors fs)] DATA_START 0 (df_bitmap fs) = Some (Some start)"
    and fs': "fs' = fs\<lparr>df_bitmap := fold bm_set [start..<start + count] (df_bitmap fs)\<rparr>"
    using assms(1) by (auto simp: alloc_sectors_def split: option.splits)
  have free: "DATA_START \<le> start \<and> start + count \<le> unat (df_total_sectors fs) \<and> run_free (df_bitmap fs) start count"
    by (rule alloc_scan_free [OF scan assms(2)]) simp_all
  then show "DATA_START \<le> start" "start + count \<le> unat (df_total_sectors fs)"
    "run_free (df_bitmap fs) start count" by simp_all
  from free have "\<forall>s \<in> set [start..<start + count]. s div 8 < length (df_bitmap fs)" by (simp add: run_free_def)
  from fold_bm_set [OF this, of t] show "length (df_bitmap fs') = length (df_bitmap fs)"
    "bm_test (df_bitmap fs') t \<longleftrightarrow> start \<le> t \<and> t < start + count \<or> bm_test (df_bitmap fs) t"
    by (auto simp: fs')
  show "df_entries fs' = df_entries fs" "df_total_sectors fs' = df_total_sectors fs" by (simp_all add: fs')
qed

section \<open>The invariant\<close>

definition entry_range :: "file_entry \<Rightarrow> nat set" where
  "entry_range e = {unat (fe_start_sector e)..<unat (fe_start_sector e) + unat (fe_sector_count e)}"

definition entry_ok :: "diskfs \<Rightarrow> file_entry \<Rightarrow> bool" where
  "entry_ok fs e \<longleftrightarrow> entry_fit e \<and> (is_active e \<longrightarrow>
     0 < unat (fe_sector_count e) \<and> entry_range e \<subseteq> {DATA_START..<unat (df_total_sectors fs)}
     \<and> (\<forall>s \<in> entry_range e. s div 8 < length (df_bitmap fs) \<and> bm_test (df_bitmap fs) s) \<and> (unat (fe_sector_count e) - 1) * SECTOR_SIZE \<le> unat (fe_size e))"

definition disk_ok :: "diskfs \<Rightarrow> bool" where
  "disk_ok fs \<longleftrightarrow> length (df_entries fs) = MAX_FILES \<and> length (df_bitmap fs) = 2048
     \<and> (\<forall>e \<in> set (df_entries fs). entry_ok fs e)
     \<and> (\<forall>i < MAX_FILES. \<forall>j < MAX_FILES. i \<noteq> j \<and> is_active (df_entries fs ! i) \<and> is_active (df_entries fs ! j) \<longrightarrow>
          entry_range (df_entries fs ! i) \<inter> entry_range (df_entries fs ! j) = {}
          \<and> name_str (df_entries fs ! i) \<noteq> name_str (df_entries fs ! j))"

definition backed :: "diskfs \<Rightarrow> storage \<Rightarrow> bool" where
  "backed fs st \<longleftrightarrow> (\<forall>a < df_total_sectors fs. DATA_START \<le> unat a \<longrightarrow> (\<exists>buf. read_sector_internal a st = Inr buf))"

definition disk_inv :: "diskfs \<Rightarrow> storage \<Rightarrow> bool" where
  "disk_inv fs st \<longleftrightarrow> disk_ok fs \<and> disk_mount st = Inr fs \<and> backed fs st"

section \<open>Metadata on the disk\<close>

lemma read_run_nth:
  "read_run rd a n s = Inr bs \<longleftrightarrow> length bs = n \<and> (\<forall>i < n. rd (a + of_nat i) s = Inr (bs ! i))"
proof (induction n arbitrary: a bs)
  case (Suc n)
  show ?case
  proof (cases bs)
    case (Cons b bs')
    have "(\<forall>i < Suc n. rd (a + of_nat i) s = Inr ((b # bs') ! i)) \<longleftrightarrow>
        rd a s = Inr b \<and> (\<forall>i < n. rd (a + 1 + of_nat i) s = Inr (bs' ! i))"
      by (simp add: All_less_Suc2 add.assoc)
    with Suc Cons show ?thesis by (auto simp: rbind_Inr_iff)
  qed (simp add: rbind_Inr_iff)
qed auto

lemma disk_mount_iff:
  "disk_mount st = Inr fs \<longleftrightarrow> (\<exists>buf bm es. read_sector_internal 0 st = Inr buf
     \<and> sb_magic (superblock_of buf) = DISKFS_MAGIC
     \<and> read_run read_sector_internal BITMAP_START BITMAP_SECTORS st = Inr bm
     \<and> read_run read_sector_internal ENTRY_START MAX_FILES st = Inr es
     \<and> fs = \<lparr>df_entries = map entry_of es, df_bitmap = concat bm,
              df_total_sectors = ucast (sb_total_sectors (superblock_of buf))\<rparr>)"
  by (auto simp: disk_mount_def read_superblock_def rbind_Inr_iff split: if_splits)

lemma metadata_addr: "i < n \<Longrightarrow> n \<le> 64 \<Longrightarrow> unat (5 + of_nat i :: u64) = 5 + i"
  "i < n \<Longrightarrow> n \<le> 64 \<Longrightarrow> unat (1 + of_nat i :: u64) = 1 + i"
  by (simp_all add: unat_word_ariths unat_of_nat)

lemma mount_cong:
  assumes "\<forall>a. unat a < DATA_START \<longrightarrow> read_sector_internal a st' = read_sector_internal a st"
  shows "disk_mount st' = disk_mount st"
proof -
  have "read_run read_sector_internal BITMAP_START BITMAP_SECTORS st' = read_run read_sector_internal BITMAP_START BITMAP_SECTORS st"
    using assms metadata_addr(2) [of _ 4] by (intro disk_sectors.read_run_cong) (auto simp: run_addrs_def simp del: run_addrs_simps)
  moreover have "read_run read_sector_internal ENTRY_START MAX_FILES st' = read_run read_sector_internal ENTRY_START MAX_FILES st"
    using assms metadata_addr(1) [of _ 64] by (intro disk_sectors.read_run_cong) (auto simp: run_addrs_def simp del: run_addrs_simps)
  moreover have "read_sector_internal 0 st' = read_sector_internal 0 st" using assms by simp
  ultimately show ?thesis by (simp only: disk_mount_def read_superblock_def)
qed

lemma sync_entry_ok:
  assumes "sync_entry slot fs st = (Inr (), st')" "slot < MAX_FILES" "entry_fit (df_entries fs ! slot)"
  shows "read_sector_internal (ENTRY_START + of_nat slot) st' = Inr (entry_bytes (df_entries fs ! slot))"
    "unat a \<noteq> 5 + slot \<Longrightarrow> read_sector_internal a st' = read_sector_internal a st"
proof -
  note w = assms(1) [unfolded sync_entry_def]
  show "read_sector_internal (ENTRY_START + of_nat slot) st' = Inr (entry_bytes (df_entries fs ! slot))"
    by (rule disk_sectors.wr_same [OF length_entry_bytes [OF assms(3)] w])
  assume "unat a \<noteq> 5 + slot"
  then have "a \<noteq> ENTRY_START + of_nat slot" using metadata_addr(1) [of slot 64] assms(2) by auto
  then show "read_sector_internal a st' = read_sector_internal a st" by (rule disk_sectors.wr_other [OF w])
qed

lemma sync_bitmap_ok:
  assumes "sync_bitmap fs st = (Inr (), st')" "length (df_bitmap fs) = 2048"
  shows "read_run read_sector_internal BITMAP_START BITMAP_SECTORS st' = Inr (bitmap_sectors (df_bitmap fs))"
    "unat a = 0 \<or> 5 \<le> unat a \<Longrightarrow> read_sector_internal a st' = read_sector_internal a st"
proof -
  have len: "length (bitmap_sectors (df_bitmap fs)) = 4" by (simp add: bitmap_sectors_def)
  note w = assms(1) [unfolded sync_bitmap_def]
  show "read_run read_sector_internal BITMAP_START BITMAP_SECTORS st' = Inr (bitmap_sectors (df_bitmap fs))"
    using disk_sectors.write_run_same [OF w] bitmap_round_trip [OF assms(2)] len by simp
  assume "unat a = 0 \<or> 5 \<le> unat a"
  then have "a \<notin> run_addrs 1 4"
    using metadata_addr(2) [of _ 4] by (auto simp: run_addrs_def simp del: run_addrs_simps)
  with disk_sectors.write_run_other [OF w, of a] len show "read_sector_internal a st' = read_sector_internal a st" by simp
qed

lemma sync_superblock_ok:
  assumes "sync_superblock fs st = (Inr (), st')"
  shows "read_sector_internal 0 st' = Inr (superblock_bytes (new_superblock (length (filter is_active (df_entries fs))) (df_total_sectors fs)))"
    "unat a \<noteq> 0 \<Longrightarrow> read_sector_internal a st' = read_sector_internal a st"
proof -
  note w = assms [unfolded sync_superblock_def]
  show "read_sector_internal 0 st' = Inr (superblock_bytes (new_superblock (length (filter is_active (df_entries fs))) (df_total_sectors fs)))"
    by (rule disk_sectors.wr_same [OF superblock_round_trip(1) w])
  assume "unat a \<noteq> 0"
  then have "a \<noteq> 0" by auto
  then show "read_sector_internal a st' = read_sector_internal a st" by (rule disk_sectors.wr_other [OF w])
qed

lemma sync_all_mount:
  assumes "sync_all slot fs' st = (Inr (), st')" "disk_mount st = Inr fs" "slot < MAX_FILES"
    "df_entries fs' = (df_entries fs)[slot := e]" "entry_fit e" "length (df_entries fs) = MAX_FILES"
    "length (df_bitmap fs') = 2048" "df_total_sectors fs' = df_total_sectors fs"
  shows "disk_mount st' = Inr fs'" "DATA_START \<le> unat a \<Longrightarrow> read_sector_internal a st' = read_sector_internal a st"
proof -
  obtain s1 s2 where w: "sync_entry slot fs' st = (Inr (), s1)" "sync_bitmap fs' s1 = (Inr (), s2)"
    "sync_superblock fs' s2 = (Inr (), st')"
    using assms(1) by (auto simp: sync_all_def sbind_Inr_iff)
  have e: "df_entries fs' ! slot = e" using assms(3,4,6) by simp
  note se = sync_entry_ok [OF w(1) assms(3), unfolded e, OF assms(5)]
  note sb = sync_bitmap_ok [OF w(2) assms(7)]
  note ss = sync_superblock_ok [OF w(3)]
  show "read_sector_internal a st' = read_sector_internal a st" if "DATA_START \<le> unat a"
    using that se(2) sb(2) ss(2) assms(3) by simp
  obtain buf bm es where m: "read_run read_sector_internal ENTRY_START MAX_FILES st = Inr es"
    "fs = \<lparr>df_entries = map entry_of es, df_bitmap = concat bm, df_total_sectors = ucast (sb_total_sectors (superblock_of buf))\<rparr>"
    using assms(2) unfolding disk_mount_iff by blast
  have es: "length es = 64" "\<forall>i < 64. read_sector_internal (5 + of_nat i) st = Inr (es ! i)"
    using m(1) by (simp_all add: read_run_nth)
  have "read_sector_internal (5 + of_nat i) st' = Inr (es[slot := entry_bytes e] ! i)" if "i < 64" for i
  proof -
    have "unat (5 + of_nat i :: u64) = 5 + i" using metadata_addr(1) [of i 64] that by simp
    then have "read_sector_internal (5 + of_nat i) st' = read_sector_internal (5 + of_nat i) s1" using sb(2) ss(2) by simp
    also have "\<dots> = Inr (es[slot := entry_bytes e] ! i)"
      using se es that \<open>unat (5 + of_nat i :: u64) = 5 + i\<close> by (cases "i = slot") simp_all
    finally show ?thesis .
  qed
  then have "read_run read_sector_internal ENTRY_START MAX_FILES st' = Inr (es[slot := entry_bytes e])"
    by (simp add: read_run_nth es(1))
  moreover have "read_run read_sector_internal BITMAP_START BITMAP_SECTORS st' = Inr (bitmap_sectors (df_bitmap fs'))"
  proof -
    have "\<forall>x \<in> run_addrs 1 4. read_sector_internal x st' = read_sector_internal x s2"
      using ss(2) metadata_addr(2) [of _ 4] by (auto simp: run_addrs_def simp del: run_addrs_simps)
    with disk_sectors.read_run_cong [of 1 4 st' s2] sb(1) show ?thesis by simp
  qed
  moreover have "map entry_of (es[slot := entry_bytes e]) = df_entries fs'"
    using m(2) assms(4,5) by (simp add: map_update entry_round_trip)
  moreover have "(ucast (ucast (df_total_sectors fs') :: u32) :: u64) = df_total_sectors fs'"
  proof -
    have "(ucast (ucast (ucast (w :: u32) :: u64) :: u32) :: u64) = ucast w" for w
      by (rule bit_word_eqI) (auto simp: bit_simps dest: bit_imp_le_length)
    with m(2) assms(8) show ?thesis by simp
  qed
  ultimately show "disk_mount st' = Inr fs'"
    unfolding disk_mount_iff using ss(1) bitmap_round_trip [OF assms(7)]
    by (simp add: superblock_round_trip(2)) (simp add: new_superblock_def)
qed

section \<open>Entries\<close>

lemma position_SomeD: "position P xs = Some i \<Longrightarrow> i < length xs \<and> P (xs ! i)"
  by (induction xs arbitrary: i) (auto split: if_splits)

lemma position_NoneD: "position P xs = None \<longleftrightarrow> (\<forall>x \<in> set xs. \<not> P x)"
  by (induction xs) auto

lemma find_update_other: "i < length xs \<Longrightarrow> \<not> P y \<Longrightarrow> \<not> P (xs ! i) \<Longrightarrow> find P (xs[i := y]) = find P xs"
  by (induction xs arbitrary: i) (auto simp: less_Suc_eq_0_disj)

lemma find_update_new: "i < length xs \<Longrightarrow> P y \<Longrightarrow> \<forall>x \<in> set xs. \<not> P x \<Longrightarrow> find P (xs[i := y]) = Some y"
  by (induction xs arbitrary: i) (auto simp: less_Suc_eq_0_disj)

lemma disk_okD:
  assumes "disk_ok fs" "i < MAX_FILES"
  shows "entry_ok fs (df_entries fs ! i)" "entry_fit (df_entries fs ! i)"
  using assms by (auto simp: disk_ok_def entry_ok_def)

lemma disk_ok_apart:
  assumes "disk_ok fs" "i < MAX_FILES" "j < MAX_FILES" "i \<noteq> j"
    "is_active (df_entries fs ! i)" "is_active (df_entries fs ! j)"
  shows "entry_range (df_entries fs ! i) \<inter> entry_range (df_entries fs ! j) = {}"
    "name_str (df_entries fs ! i) \<noteq> name_str (df_entries fs ! j)"
  using assms by (auto simp: disk_ok_def)

text \<open>
  Replacing an entry keeps the invariant when the bits of the other files stay set and the new
  entry, if it is a file, has sectors and a name of its own.
\<close>

lemma disk_ok_update:
  assumes ok: "disk_ok fs" and slot: "slot < MAX_FILES"
    and fs': "df_entries fs' = (df_entries fs)[slot := e]" "length (df_bitmap fs') = 2048"
      "df_total_sectors fs' = df_total_sectors fs"
    and e: "entry_ok fs' e"
    and kept: "\<forall>i < MAX_FILES. i \<noteq> slot \<and> is_active (df_entries fs ! i) \<longrightarrow>
      (\<forall>s \<in> entry_range (df_entries fs ! i). bm_test (df_bitmap fs') s)
      \<and> (is_active e \<longrightarrow> entry_range (df_entries fs ! i) \<inter> entry_range e = {} \<and> name_str (df_entries fs ! i) \<noteq> name_str e)"
  shows "disk_ok fs'"
proof -
  have len: "length (df_entries fs) = MAX_FILES" "length (df_bitmap fs) = 2048" using ok by (simp_all add: disk_ok_def)
  have nth: "df_entries fs' ! i = (if i = slot then e else df_entries fs ! i)" if "i < MAX_FILES" for i
    using that slot len by (simp add: fs')
  have "entry_ok fs' (df_entries fs' ! i)" if i: "i < MAX_FILES" for i
  proof (cases "i = slot")
    case False
    have "entry_ok fs (df_entries fs ! i)" using disk_okD [OF ok i] by simp
    with kept i False show ?thesis by (simp add: nth [OF i] entry_ok_def fs' len)
  qed (use e nth [OF i] in simp)
  then have "\<forall>e \<in> set (df_entries fs'). entry_ok fs' e"
    using len(1) by (auto simp: in_set_conv_nth fs'(1))
  moreover have "entry_range (df_entries fs' ! i) \<inter> entry_range (df_entries fs' ! j) = {}
      \<and> name_str (df_entries fs' ! i) \<noteq> name_str (df_entries fs' ! j)"
    if ij: "i < MAX_FILES" "j < MAX_FILES" "i \<noteq> j" "is_active (df_entries fs' ! i)" "is_active (df_entries fs' ! j)" for i j
  proof -
    consider "i = slot" | "j = slot" | "i \<noteq> slot" "j \<noteq> slot" by blast
    then show ?thesis
    proof cases
      case 1
      then have "entry_range (df_entries fs ! j) \<inter> entry_range e = {} \<and> name_str (df_entries fs ! j) \<noteq> name_str e"
        using kept ij by (simp add: nth)
      then show ?thesis using 1 ij by (auto simp: nth)
    next
      case 2
      then have "entry_range (df_entries fs ! i) \<inter> entry_range e = {} \<and> name_str (df_entries fs ! i) \<noteq> name_str e"
        using kept ij by (simp add: nth)
      then show ?thesis using 2 ij by (simp add: nth)
    next
      case 3
      then show ?thesis using disk_ok_apart [OF ok ij(1,2,3)] ij by (simp add: nth)
    qed
  qed
  ultimately show ?thesis using len by (auto simp: disk_ok_def fs')
qed

section \<open>Reading\<close>

lemma read_loop_append:
  "read_loop st e (xs @ ys) d = rbind (read_loop st e xs d) (read_loop st e ys)"
proof (induction xs arbitrary: d)
  case (Cons i xs)
  then show ?case by (cases "read_sector_internal (fe_start_sector e + of_nat i) st") (simp_all add: Let_def)
qed simp

lemma read_loop_cong:
  "\<forall>i \<in> set ns. read_sector_internal (fe_start_sector e + of_nat i) st' = read_sector_internal (fe_start_sector e + of_nat i) st
   \<Longrightarrow> read_loop st' e ns d = read_loop st e ns d"
proof (induction ns arbitrary: d)
  case (Cons i ns)
  then show ?case by (cases "read_sector_internal (fe_start_sector e + of_nat i) st") (simp_all add: Let_def)
qed simp

lemma patch_step:
  "length C = k \<Longrightarrow> k \<le> n \<Longrightarrow> patch k (take (min (n - k) m) b) (C @ drop k (replicate n z))
     = C @ take (min (n - k) m) b @ drop (k + length (take (min (n - k) m) b)) (replicate n z)"
  by (simp add: patch_def)

lemma length_concat_const: "\<forall>x \<in> set xss. length x = m \<Longrightarrow> length (concat xss) = length xss * m"
  by (induction xss) auto

lemma read_loop_prefix:
  assumes "\<forall>i < n. read_sector_internal (fe_start_sector e + of_nat i) st = Inr (sec i) \<and> length (sec i) = 512"
    "n = 0 \<or> (n - 1) * 512 \<le> unat (fe_size e)"
  shows "read_loop st e [0..<n] (replicate (unat (fe_size e)) 0)
    = Inr (take (unat (fe_size e)) (concat (map sec [0..<n])) @ drop (n * 512) (replicate (unat (fe_size e)) 0))"
  using assms
proof (induction n)
  case (Suc n)
  let ?N = "unat (fe_size e)" and ?C = "concat (map sec [0..<n])"
  have C: "length ?C = n * 512" using length_concat_const [of "map sec [0..<n]" 512] Suc.prems(1) by simp
  have le: "n * 512 \<le> ?N" using Suc.prems(2) by simp
  have IH: "read_loop st e [0..<n] (replicate ?N 0) = Inr (?C @ drop (n * 512) (replicate ?N 0))"
    using Suc.IH Suc.prems le C by (cases n) auto
  have "length (sec n) = 512" using Suc.prems(1) by simp
  then have "patch (n * 512) (take (min (?N - n * 512) 512) (sec n)) (?C @ drop (n * 512) (replicate ?N 0))
      = take ?N (?C @ sec n) @ drop (Suc n * 512) (replicate ?N 0)"
    using patch_step [OF C le, of 512 "sec n" 0] C le by (auto simp: min_def)
  with IH Suc.prems(1) le show ?case
    by (simp add: read_loop_append Let_def)
qed simp

text \<open>The files of the disk.\<close>

definition disk_files :: "diskfs \<Rightarrow> storage \<Rightarrow> bytes \<rightharpoonup> bytes" where
  "disk_files fs st name = (case disk_read_file name fs st of Inl _ \<Rightarrow> None | Inr data \<Rightarrow> Some data)"

lemma sector_of_range:
  "i < unat (fe_sector_count e) \<Longrightarrow> entry_range e \<subseteq> {DATA_START..<unat (t :: u64)} \<Longrightarrow>
   unat (fe_start_sector e + of_nat i) = unat (fe_start_sector e) + i"
proof -
  assume i: "i < unat (fe_sector_count e)" and "entry_range e \<subseteq> {DATA_START..<unat t}"
  then have "unat (fe_start_sector e) + i < unat t" by (force simp: entry_range_def)
  also have "unat t < 2 ^ 64" using unsigned_less [of t] by simp
  finally show ?thesis by (simp add: unat_word_ariths unat_of_nat take_bit_nat_eq_self)
qed

lemma read_file_cong:
  assumes ok: "disk_ok fs" and same: "find (named nm) (df_entries fs') = find (named nm) (df_entries fs)"
    and sectors: "\<forall>i < MAX_FILES. named nm (df_entries fs ! i) \<longrightarrow>
      (\<forall>a. unat a \<in> entry_range (df_entries fs ! i) \<longrightarrow> read_sector_internal a st' = read_sector_internal a st)"
  shows "disk_files fs' st' nm = disk_files fs st nm"
proof (cases "find (named nm) (df_entries fs)")
  case None
  with same show ?thesis by (simp add: disk_files_def disk_read_file_def)
next
  case (Some e)
  then obtain i where i: "i < MAX_FILES" "df_entries fs ! i = e" "named nm e"
    using ok by (auto simp: find_Some_iff disk_ok_def)
  have e: "entry_range e \<subseteq> {DATA_START..<unat (df_total_sectors fs)}"
    using disk_okD(1) [OF ok i(1)] i by (simp add: entry_ok_def named_def)
  have "read_sector_internal (fe_start_sector e + of_nat j) st' = read_sector_internal (fe_start_sector e + of_nat j) st"
    if "j < unat (fe_sector_count e)" for j
    using sectors i sector_of_range [OF that e] that by (auto simp: entry_range_def)
  then have "read_loop st' e [0..<unat (fe_sector_count e)] d = read_loop st e [0..<unat (fe_sector_count e)] d" for d
    by (intro read_loop_cong) simp
  with Some same show ?thesis by (simp add: disk_files_def disk_read_file_def)
qed

section \<open>Deleting and storing\<close>

lemma io_err_Inr [simp]: "io_err r = Inr x \<longleftrightarrow> r = Inr x"
  by (cases r) auto

lemma with_fs_Inr: "with_fs fs p = (Inr x, fs', st') \<longleftrightarrow> fs' = fs \<and> p = (Inr x, st')"
  by (cases p) auto

lemma named_unique:
  assumes "disk_ok fs" "i < MAX_FILES" "j < MAX_FILES" "named nm (df_entries fs ! i)" "named nm (df_entries fs ! j)"
  shows "i = j"
  using disk_ok_apart(2) [OF assms(1,2,3)] assms(4,5) by (auto simp: named_def)

lemma delete_slot:
  assumes ok: "disk_ok fs" and slot: "slot < MAX_FILES" "is_active (df_entries fs ! slot)"
    and e: "e = df_entries fs ! slot"
  obtains fs1 where "free_sectors (unat (fe_start_sector e)) (unat (fe_sector_count e)) fs = Some fs1"
    "df_entries fs1 = df_entries fs" "df_total_sectors fs1 = df_total_sectors fs"
    "disk_ok (fs1\<lparr>df_entries := (df_entries fs1)[slot := zeroed_entry]\<rparr>)"
    "length (df_bitmap fs1) = 2048"
proof -
  let ?ss = "[unat (fe_start_sector e)..<unat (fe_start_sector e) + unat (fe_sector_count e)]"
  have range: "set ?ss = entry_range e" by (simp add: entry_range_def)
  have len: "\<forall>s \<in> set ?ss. s div 8 < length (df_bitmap fs)"
    using disk_okD(1) [OF ok slot(1)] slot(2) unfolding range unfolding e entry_ok_def by blast
  define fs1 where "fs1 = fs\<lparr>df_bitmap := fold bm_clear ?ss (df_bitmap fs)\<rparr>"
  have bm: "length (df_bitmap fs1) = 2048" "bm_test (df_bitmap fs1) t \<longleftrightarrow> t \<notin> entry_range e \<and> bm_test (df_bitmap fs) t" for t
    using fold_bm_clear [OF len, of t, unfolded range] ok by (simp_all add: fs1_def disk_ok_def)
  have "free_sectors (unat (fe_start_sector e)) (unat (fe_sector_count e)) fs = Some fs1"
    using len by (auto simp: free_sectors_def fs1_def not_le)
  moreover have "disk_ok (fs1\<lparr>df_entries := (df_entries fs1)[slot := zeroed_entry]\<rparr>)"
  proof (rule disk_ok_update [OF ok slot(1)])
    show "\<forall>i < MAX_FILES. i \<noteq> slot \<and> is_active (df_entries fs ! i) \<longrightarrow>
      (\<forall>s \<in> entry_range (df_entries fs ! i). bm_test (df_bitmap (fs1\<lparr>df_entries := (df_entries fs1)[slot := zeroed_entry]\<rparr>)) s)
      \<and> (is_active zeroed_entry \<longrightarrow> entry_range (df_entries fs ! i) \<inter> entry_range zeroed_entry = {}
        \<and> name_str (df_entries fs ! i) \<noteq> name_str zeroed_entry)"
      using disk_okD(1) [OF ok] disk_ok_apart(1) [OF ok _ slot(1) _ _ slot(2)]
      by (simp add: bm(2) entry_ok_def e) blast
  qed (use bm(1) in \<open>simp_all add: fs1_def entry_ok_def\<close>)
  ultimately show ?thesis using that [of fs1] bm(1) by (simp add: fs1_def)
qed

lemma disk_delete_ok:
  assumes inv: "disk_inv fs st" and del: "disk_delete_file nm fs st = (Inr (), fs', st')"
  shows "disk_inv fs' st'" "disk_files fs' st' = (disk_files fs st)(nm := None)"
    "df_total_sectors fs' = df_total_sectors fs" "\<forall>e \<in> set (df_entries fs'). \<not> named nm e"
proof -
  have ok: "disk_ok fs" and m: "disk_mount st = Inr fs" and b: "backed fs st"
    using inv by (simp_all add: disk_inv_def)
  have len: "length (df_entries fs) = MAX_FILES" using ok by (simp add: disk_ok_def)
  obtain slot where slot: "position (named nm) (df_entries fs) = Some slot"
    using del by (auto simp: disk_delete_file_def split: option.splits)
  then have sl: "slot < MAX_FILES" "named nm (df_entries fs ! slot)" using position_SomeD [OF slot] len by simp_all
  then have act: "is_active (df_entries fs ! slot)" by (simp add: named_def)
  obtain fs1 where fs1: "free_sectors (unat (fe_start_sector (df_entries fs ! slot)))
      (unat (fe_sector_count (df_entries fs ! slot))) fs = Some fs1"
    "df_entries fs1 = df_entries fs" "df_total_sectors fs1 = df_total_sectors fs"
    "disk_ok (fs1\<lparr>df_entries := (df_entries fs1)[slot := zeroed_entry]\<rparr>)" "length (df_bitmap fs1) = 2048"
    using delete_slot [OF ok sl(1) act refl] by blast
  let ?fs = "fs1\<lparr>df_entries := (df_entries fs1)[slot := zeroed_entry]\<rparr>"
  have fs': "fs' = ?fs" and sync: "sync_all slot ?fs st = (Inr (), st')"
    using del slot fs1(1) by (simp_all add: disk_delete_file_def Let_def with_fs_Inr)
  note mount = sync_all_mount [OF sync m sl(1), of zeroed_entry]
  have sectors: "read_sector_internal a st' = read_sector_internal a st" if "DATA_START \<le> unat a" for a
    using mount(2) [OF _ _ len _ _ that] fs1 by simp
  show "df_total_sectors fs' = df_total_sectors fs" by (simp add: fs' fs1)
  show "disk_inv fs' st'"
    using mount(1) fs1 len b sectors by (simp add: disk_inv_def fs' backed_def)
  have others: "\<not> named nm (df_entries fs' ! i)" if "i < MAX_FILES" for i
    using named_unique [OF ok that sl(1) _ sl(2)] that sl(1) len by (cases "i = slot") (auto simp: fs' fs1 named_def)
  then show none: "\<forall>e \<in> set (df_entries fs'). \<not> named nm e"
    using len by (auto simp: in_set_conv_nth fs' fs1)
  show "disk_files fs' st' = (disk_files fs st)(nm := None)"
  proof
    fix q
    show "disk_files fs' st' q = ((disk_files fs st)(nm := None)) q"
    proof (cases "q = nm")
      case True
      have "find (named nm) (df_entries fs') = None" using none by (simp add: find_None_iff)
      with True show ?thesis by (simp add: disk_files_def disk_read_file_def)
    next
      case False
      have "find (named q) (df_entries fs') = find (named q) (df_entries fs)"
        unfolding fs' using sl False len by (simp add: fs1 find_update_other named_def)
      moreover have "DATA_START \<le> unat a" if "i < MAX_FILES" "named q (df_entries fs ! i)" "unat a \<in> entry_range (df_entries fs ! i)" for i and a :: u64
        using disk_okD(1) [OF ok that(1)] that(2,3) by (auto simp: entry_ok_def named_def)
      ultimately have "disk_files fs' st' q = disk_files fs st q"
        using sectors by (intro read_file_cong [OF ok]) blast+
      with False show ?thesis by simp
    qed
  qed
qed

lemma data_sector_eq:
  "i * 512 \<le> length data \<Longrightarrow> data_sector data i = take 512 (drop (i * 512) data @ replicate 512 0)"
  by (simp add: data_sector_def patch_def subslice_def Let_def min_def)

lemma length_data_sector [simp]: "i * 512 \<le> length data \<Longrightarrow> length (data_sector data i) = 512"
  by (simp add: data_sector_eq)

lemma sectors_needed_bounds:
  "length data \<le> sectors_needed data * 512" "i < sectors_needed data \<Longrightarrow> i * 512 < length data"
proof -
  show "length data \<le> sectors_needed data * 512"
    using div_mult_mod_eq [of "length data + 511" 512] mod_less_divisor [of 512 "length data + 511"]
    unfolding sectors_needed_def by linarith
  assume "i < sectors_needed data"
  then have "(i + 1) * 512 \<le> sectors_needed data * 512" by simp
  also have "\<dots> \<le> length data + 511"
    using div_mult_mod_eq [of "length data + 511" 512] unfolding sectors_needed_def by linarith
  finally show "i * 512 < length data" by simp
qed

lemma concat_data_sectors:
  "n \<le> sectors_needed data \<Longrightarrow> take (length data) (concat (map (data_sector data) [0..<n])) = take (n * 512) data"
proof (induction n)
  case (Suc n)
  have lt: "n * 512 < length data" using sectors_needed_bounds(2) [of n data] Suc.prems by simp
  have "\<forall>x \<in> set (map (data_sector data) [0..<n]). length x = 512" using lt by auto
  from length_concat_const [OF this] have len: "length (concat (map (data_sector data) [0..<n])) = n * 512" by simp
  have IH: "concat (map (data_sector data) [0..<n]) = take (n * 512) data"
    using Suc lt len by simp
  have "take (length data - n * 512) (data_sector data n) = take 512 (drop (n * 512) data)"
    using lt by (simp add: data_sector_eq min_def)
  then show ?case using lt by (simp add: IH take_add [of "n * 512" 512, simplified add.commute] add.commute)
qed simp

lemma set_name_sel [simp]:
  "fe_flags (set_name nm e) = fe_flags e" "fe_reserved (set_name nm e) = fe_reserved e"
  by (simp_all add: set_name_def Let_def)

definition stored_entry :: "bytes \<Rightarrow> bytes \<Rightarrow> nat \<Rightarrow> file_entry \<Rightarrow> file_entry" where
  "stored_entry nm data start e = (set_name nm e)\<lparr>fe_flags := 1, fe_size := of_nat (length data),
     fe_start_sector := of_nat start, fe_sector_count := of_nat (max (sectors_needed data) 1)\<rparr>"

lemma stored_entry_sel:
  assumes "entry_fit e" "name_fit nm" "start + max (sectors_needed data) 1 \<le> 16384" "x = stored_entry nm data start e"
  shows "entry_fit x" "is_active x" "name_str x = nm" "unat (fe_size x) = length data"
    "unat (fe_start_sector x) = start" "unat (fe_sector_count x) = max (sectors_needed data) 1"
proof -
  show "entry_fit x" using set_name_fit [OF assms(1), of nm] by (simp add: assms(4) stored_entry_def entry_fit_def)
  show "is_active x" by (simp add: assms(4) stored_entry_def is_active_def)
  show "name_str x = nm" using name_str_set_name [OF assms(2), of e] by (simp add: assms(4) stored_entry_def name_str_def)
  have "length data \<le> 16384 * 512" using sectors_needed_bounds(1) [of data] assms(3) by linarith
  then show "unat (fe_size x) = length data" by (simp add: assms(4) stored_entry_def unat_of_nat take_bit_nat_eq_self)
  show "unat (fe_start_sector x) = start" "unat (fe_sector_count x) = max (sectors_needed data) 1"
    using assms(3) by (simp_all add: assms(4) stored_entry_def unat_of_nat take_bit_nat_eq_self)
qed

lemma disk_store_cases:
  assumes "disk_store nm data fs st = (Inr (), fs', st')" "disk_ok fs"
  obtains slot start fs1 st1 where "slot < MAX_FILES" "\<not> is_active (df_entries fs ! slot)"
    "alloc_sectors (max (sectors_needed data) 1) fs = Some (Some start, fs1)"
    "write_run write_sector_internal (of_nat start) (map (data_sector data) [0..<sectors_needed data]) st = (Inr (), st1)"
    "fs' = fs1\<lparr>df_entries := (df_entries fs1)[slot := stored_entry nm data start (df_entries fs1 ! slot)]\<rparr>"
    "sync_all slot fs' st1 = (Inr (), st')"
proof -
  obtain slot where slot: "position (\<lambda>e. \<not> is_active e) (df_entries fs) = Some slot"
    using assms(1) by (auto simp: disk_store_def split: option.splits)
  have sl: "slot < MAX_FILES" "\<not> is_active (df_entries fs ! slot)"
    using position_SomeD [OF slot] assms(2) by (simp_all add: disk_ok_def)
  obtain start fs1 where a: "alloc_sectors (max (sectors_needed data) 1) fs = Some (Some start, fs1)"
    using assms(1) slot by (auto simp: disk_store_def Let_def split: option.splits)
  obtain st1 where w: "write_run write_sector_internal (of_nat start) (map (data_sector data) [0..<sectors_needed data]) st = (Inr (), st1)"
    and r: "with_fs (fs1\<lparr>df_entries := (df_entries fs1)[slot := stored_entry nm data start (df_entries fs1 ! slot)]\<rparr>)
      (sync_all slot (fs1\<lparr>df_entries := (df_entries fs1)[slot := stored_entry nm data start (df_entries fs1 ! slot)]\<rparr>) st1)
      = (Inr (), fs', st')"
    using assms(1) slot a by (auto simp: disk_store_def Let_def sbind_Inr_iff with_fs_Inr stored_entry_def)
  from that [OF sl a w] r show ?thesis by (auto simp: with_fs_Inr)
qed

lemma run_free_bound: "run_free bm start n \<Longrightarrow> 0 < n \<Longrightarrow> start + n \<le> 8 * length bm"
proof -
  assume "run_free bm start n" "0 < n"
  then have "(start + (n - 1)) div 8 < length bm" by (simp add: run_free_def)
  then show ?thesis using \<open>0 < n\<close> by (simp add: div_less_iff_less_mult mult.commute)
qed

lemma run_addrs_unat:
  assumes "start + n \<le> 16384"
  shows "a \<in> run_addrs (of_nat start) n \<longleftrightarrow> start \<le> unat a \<and> unat a < start + n"
proof
  assume "a \<in> run_addrs (of_nat start) n"
  then obtain i where i: "i < n" "a = of_nat (start + i)" by (auto simp: run_addrs_def)
  then have "unat a = start + i" unfolding i(2) using assms by (intro unat_of_nat_less) simp
  with i(1) show "start \<le> unat a \<and> unat a < start + n" by simp
next
  assume "start \<le> unat a \<and> unat a < start + n"
  then have "a = of_nat start + of_nat (unat a - start)" "unat a - start < n" by (auto simp flip: of_nat_add)
  then show "a \<in> run_addrs (of_nat start) n" by (auto simp: run_addrs_def)
qed

lemma stored_read:
  assumes x: "unat (fe_size x) = length data" "unat (fe_sector_count x) = max (sectors_needed data) 1"
    and w: "read_run read_sector_internal (fe_start_sector x) (sectors_needed data) st
      = Inr (map (data_sector data) [0..<sectors_needed data])"
    and b: "\<exists>buf. read_sector_internal (fe_start_sector x) st = Inr buf"
  shows "read_loop st x [0..<unat (fe_sector_count x)] (replicate (unat (fe_size x)) 0) = Inr data"
proof (cases "sectors_needed data = 0")
  case True
  then have "data = []" using sectors_needed_bounds(1) [of data] by simp
  then show ?thesis using True x b by (auto simp: patch_def Let_def)
next
  case False
  let ?n = "sectors_needed data"
  have "\<forall>i < ?n. read_sector_internal (fe_start_sector x + of_nat i) st = Inr (data_sector data i)"
    using w by (simp add: read_run_nth)
  moreover have "\<forall>i < ?n. length (data_sector data i) = 512"
    using sectors_needed_bounds(2) [of _ data] by (simp add: less_imp_le)
  moreover have "(?n - 1) * 512 \<le> length data"
    using sectors_needed_bounds(2) [of "?n - 1" data] False by simp
  moreover have "unat (fe_sector_count x) = ?n" using x(2) False by simp
  ultimately show ?thesis
    using read_loop_prefix [of ?n x st "data_sector data"] concat_data_sectors [of ?n data]
      sectors_needed_bounds(1) [of data] x(1) by simp
qed

lemma stored_disk_ok:
  assumes ok: "disk_ok fs" and slot: "slot < MAX_FILES"
    and fs': "df_entries fs' = (df_entries fs)[slot := x]" "length (df_bitmap fs') = 2048"
      "df_total_sectors fs' = df_total_sectors fs"
    and al: "alloc_sectors (max (sectors_needed data) 1) fs = Some (Some start, fs1)"
    and x: "entry_fit x" "is_active x" "unat (fe_size x) = length data" "unat (fe_start_sector x) = start"
      "unat (fe_sector_count x) = max (sectors_needed data) 1"
    and bm: "df_bitmap fs' = df_bitmap fs1"
    and apart: "\<forall>i < MAX_FILES. is_active (df_entries fs ! i) \<longrightarrow>
      entry_range (df_entries fs ! i) \<inter> entry_range x = {} \<and> name_str (df_entries fs ! i) \<noteq> name_str x"
  shows "disk_ok fs'"
proof (rule disk_ok_update [OF ok slot fs'])
  let ?m = "max (sectors_needed data) 1"
  have pos: "0 < ?m" by simp
  note alloc = alloc_sectors_free [OF al pos]
  have size: "(?m - 1) * 512 \<le> length data"
    using sectors_needed_bounds(2) [of "?m - 1" data] by (cases "sectors_needed data") auto
  show "entry_ok fs' x"
    using x alloc(1,2,3,6,7) fs'(2,3) bm size
    by (auto simp: entry_ok_def entry_range_def run_free_def)
  show "\<forall>i < MAX_FILES. i \<noteq> slot \<and> is_active (df_entries fs ! i) \<longrightarrow>
      (\<forall>s \<in> entry_range (df_entries fs ! i). bm_test (df_bitmap fs') s)
      \<and> (is_active x \<longrightarrow> entry_range (df_entries fs ! i) \<inter> entry_range x = {} \<and> name_str (df_entries fs ! i) \<noteq> name_str x)"
    using disk_okD(1) [OF ok] alloc(7) apart by (simp add: bm entry_ok_def)
qed

text \<open>What a successful store has done: the entry, the sectors and the writes.\<close>

definition stored :: "diskfs \<Rightarrow> storage \<Rightarrow> bytes \<Rightarrow> bytes \<Rightarrow> diskfs \<Rightarrow> storage \<Rightarrow> nat \<Rightarrow> nat \<Rightarrow> file_entry \<Rightarrow> storage \<Rightarrow> bool" where
  "stored fs st nm data fs' st' slot start x st1 \<longleftrightarrow>
     slot < MAX_FILES \<and> \<not> is_active (df_entries fs ! slot)
     \<and> entry_fit x \<and> is_active x \<and> name_str x = nm \<and> unat (fe_size x) = length data \<and> fe_start_sector x = of_nat start
     \<and> unat (fe_sector_count x) = max (sectors_needed data) 1
     \<and> entry_range x = {start..<start + max (sectors_needed data) 1}
     \<and> DATA_START \<le> start \<and> start + max (sectors_needed data) 1 \<le> 16384
     \<and> start + max (sectors_needed data) 1 \<le> unat (df_total_sectors fs)
     \<and> (\<forall>i < MAX_FILES. is_active (df_entries fs ! i) \<longrightarrow> entry_range (df_entries fs ! i) \<inter> entry_range x = {})
     \<and> disk_ok fs' \<and> df_entries fs' = (df_entries fs)[slot := x] \<and> df_total_sectors fs' = df_total_sectors fs
     \<and> write_run write_sector_internal (of_nat start) (map (data_sector data) [0..<sectors_needed data]) st = (Inr (), st1)
     \<and> sync_all slot fs' st1 = (Inr (), st')"

lemma disk_store_stored:
  assumes ok: "disk_ok fs" and nm: "name_fit nm" and new: "\<forall>e \<in> set (df_entries fs). \<not> named nm e"
    and st: "disk_store nm data fs st = (Inr (), fs', st')"
  shows "\<exists>slot start x st1. stored fs st nm data fs' st' slot start x st1"
proof -
  let ?n = "sectors_needed data" and ?m = "max (sectors_needed data) 1"
  have len: "length (df_entries fs) = MAX_FILES" "length (df_bitmap fs) = 2048" using ok by (simp_all add: disk_ok_def)
  obtain slot start fs1 st1 where sl: "slot < MAX_FILES" "\<not> is_active (df_entries fs ! slot)"
    and al: "alloc_sectors ?m fs = Some (Some start, fs1)"
    and w: "write_run write_sector_internal (of_nat start) (map (data_sector data) [0..<?n]) st = (Inr (), st1)"
    and fs': "fs' = fs1\<lparr>df_entries := (df_entries fs1)[slot := stored_entry nm data start (df_entries fs1 ! slot)]\<rparr>"
    and sync: "sync_all slot fs' st1 = (Inr (), st')"
    by (rule disk_store_cases [OF st ok])
  have pos: "0 < ?m" by simp
  note alloc = alloc_sectors_free [OF al pos]
  have bound: "start + ?m \<le> 16384" using run_free_bound [OF alloc(3) pos] len(2) by simp
  define x where "x = stored_entry nm data start (df_entries fs ! slot)"
  note xs = stored_entry_sel [OF disk_okD(2) [OF ok sl(1)] nm bound x_def]
  have range: "entry_range x = {start..<start + ?m}" by (simp add: entry_range_def xs)
  have fs'x: "df_entries fs' = (df_entries fs)[slot := x]" "df_bitmap fs' = df_bitmap fs1"
    "df_total_sectors fs' = df_total_sectors fs" "length (df_bitmap fs') = 2048"
    by (simp_all add: fs' alloc x_def len)
  have apart: "entry_range (df_entries fs ! i) \<inter> entry_range x = {}" if "i < MAX_FILES" "is_active (df_entries fs ! i)" for i
    using disk_okD(1) [OF ok that(1)] that(2) alloc(3) unfolding range by (fastforce simp: entry_ok_def run_free_def)
  have "disk_ok fs'"
    using stored_disk_ok [OF ok sl(1) fs'x(1,4,3) al xs(1,2,4,5,6) fs'x(2)] apart new xs(3) len(1)
    by (simp add: named_def)
  moreover have "fe_start_sector x = of_nat start" by (simp add: x_def stored_entry_def)
  ultimately have "stored fs st nm data fs' st' slot start x st1"
    using sl xs range alloc(1,2) bound apart fs'x w sync by (simp add: stored_def)
  then show ?thesis by blast
qed

lemma stored_sectors:
  assumes s: "stored fs st nm data fs' st' slot start x st1" and inv: "disk_inv fs st"
  shows "disk_mount st' = Inr fs'" "DATA_START \<le> unat a \<Longrightarrow> read_sector_internal a st' = read_sector_internal a st1"
    "unat a \<notin> entry_range x \<Longrightarrow> read_sector_internal a st1 = read_sector_internal a st"
    "read_run read_sector_internal (of_nat start) (sectors_needed data) st1
      = Inr (map (data_sector data) [0..<sectors_needed data])" "backed fs' st1"
proof -
  let ?n = "sectors_needed data"
  note s' = s [unfolded stored_def]
  have ok: "disk_ok fs" and m: "disk_mount st = Inr fs" and b: "backed fs st" using inv by (simp_all add: disk_inv_def)
  have w: "write_run write_sector_internal (of_nat start) (map (data_sector data) [0..<?n]) st = (Inr (), st1)"
    using s' by blast
  have sizes: "\<forall>b \<in> set (map (data_sector data) [0..<?n]). length b = 512"
    using sectors_needed_bounds(2) [of _ data] by (simp add: less_imp_le)
  have away: "read_sector_internal a st1 = read_sector_internal a st" if "unat a \<notin> entry_range x" for a
    using disk_sectors.write_run_other [OF w, of a] run_addrs_unat [of start ?n a] s' that by auto
  then show "unat a \<notin> entry_range x \<Longrightarrow> read_sector_internal a st1 = read_sector_internal a st" .
  have m1: "disk_mount st1 = Inr fs" using mount_cong [of st1 st] away s' m by simp
  have fits: "length (df_entries fs) = MAX_FILES" "length (df_bitmap fs') = 2048"
    using ok s' by (simp_all add: disk_ok_def)
  have "sync_all slot fs' st1 = (Inr (), st')" "slot < MAX_FILES" "df_entries fs' = (df_entries fs)[slot := x]"
    "entry_fit x" "df_total_sectors fs' = df_total_sectors fs" using s' by simp_all
  note sm = sync_all_mount [OF this(1) m1 this(2,3,4) fits this(5)]
  show "disk_mount st' = Inr fs'" by (rule sm(1))
  show "DATA_START \<le> unat a \<Longrightarrow> read_sector_internal a st' = read_sector_internal a st1" by (rule sm(2))
  show "read_run read_sector_internal (of_nat start) ?n st1 = Inr (map (data_sector data) [0..<?n])"
  proof -
    have "start + max ?n 1 \<le> 16384" using s' by blast
    then have "?n < 16385" by linarith
    then show ?thesis using disk_sectors.write_run_same [OF w sizes] by simp
  qed
  show "backed fs' st1"
    using b disk_sectors.write_run_readable [OF w sizes] s' unfolding backed_def by metis
qed

lemma stored_contents:
  assumes s: "stored fs st nm data fs' st' slot start x st1" and inv: "disk_inv fs st"
  shows "read_loop st' x [0..<unat (fe_sector_count x)] (replicate (unat (fe_size x)) 0) = Inr data"
proof -
  note s' = s [unfolded stored_def] and sec = stored_sectors [OF s inv]
  let ?m = "max (sectors_needed data) 1"
  have addr: "unat (of_nat (start + i) :: u64) = start + i" if "i < ?m" for i
    using that s' by (intro unat_of_nat_less) simp
  have start: "unat (of_nat start :: u64) = start" using addr [of 0] by simp
  have "start + ?m \<le> unat (df_total_sectors fs')" using s' by simp
  then have "of_nat start < df_total_sectors fs'" unfolding word_less_nat_alt start by linarith
  then have b: "\<exists>buf. read_sector_internal (of_nat start) st1 = Inr buf"
    using sec(5) start s' by (simp add: backed_def)
  have "read_loop st' x [0..<unat (fe_sector_count x)] (replicate (unat (fe_size x)) 0)
      = read_loop st1 x [0..<unat (fe_sector_count x)] (replicate (unat (fe_size x)) 0)"
  proof (rule read_loop_cong, rule ballI)
    fix i assume "i \<in> set [0..<unat (fe_sector_count x)]"
    then have "i < ?m" using s' by simp
    with sec(2) [of "of_nat (start + i)"] addr s'
    show "read_sector_internal (fe_start_sector x + of_nat i) st' = read_sector_internal (fe_start_sector x + of_nat i) st1"
      by simp
  qed
  also have "\<dots> = Inr data" using stored_read [of x data st1] sec(4) b s' by simp
  finally show ?thesis .
qed

lemma disk_store_ok:
  assumes inv: "disk_inv fs st" and nm: "name_fit nm" and new: "\<forall>e \<in> set (df_entries fs). \<not> named nm e"
    and st: "disk_store nm data fs st = (Inr (), fs', st')"
  shows "disk_inv fs' st' \<and> disk_files fs' st' = (disk_files fs st)(nm \<mapsto> data)"
proof -
  have ok: "disk_ok fs" using inv by (simp add: disk_inv_def)
  obtain slot start x st1 where s: "stored fs st nm data fs' st' slot start x st1"
    using disk_store_stored [OF ok nm new st] by blast
  note s' = s [unfolded stored_def] and sec = stored_sectors [OF s inv]
  have len: "length (df_entries fs) = MAX_FILES" using ok by (simp add: disk_ok_def)
  have new_file: "disk_files fs' st' nm = Some data"
    using find_update_new [of slot "df_entries fs" "named nm" x] new s' stored_contents [OF s inv] len
    by (simp add: disk_files_def disk_read_file_def named_def)
  have other: "disk_files fs' st' q = disk_files fs st q" if "q \<noteq> nm" for q
  proof (rule read_file_cong [OF ok])
    show "find (named q) (df_entries fs') = find (named q) (df_entries fs)"
      using that s' len by (simp add: find_update_other named_def)
    show "\<forall>i < MAX_FILES. named q (df_entries fs ! i) \<longrightarrow>
        (\<forall>a. unat a \<in> entry_range (df_entries fs ! i) \<longrightarrow> read_sector_internal a st' = read_sector_internal a st)"
    proof (intro allI impI)
      fix i and a :: u64
      assume i: "i < MAX_FILES" "named q (df_entries fs ! i)" "unat a \<in> entry_range (df_entries fs ! i)"
      then have act: "is_active (df_entries fs ! i)" by (simp add: named_def)
      with i s' have "unat a \<notin> entry_range x" by blast
      moreover have "DATA_START \<le> unat a" using disk_okD(1) [OF ok i(1)] i act by (auto simp: entry_ok_def)
      ultimately show "read_sector_internal a st' = read_sector_internal a st" using sec(2,3) by simp
    qed
  qed
  have "backed fs' st'" using sec(2,5) by (simp add: backed_def)
  with new_file other sec(1) s' show ?thesis by (auto simp: disk_inv_def fun_eq_iff)
qed

section \<open>The file system as a map of files\<close>

text \<open>
  C0: the disk implements a map from names to contents. A write that reports success replaces
  exactly one file, whose contents read back as written, leaves every other file as it was, and
  keeps the invariant: the entries, the bitmap and the superblock on the disk are those in memory,
  so that mounting the disk after a restart gives the same files.
\<close>

theorem disk_write_refines:
  assumes "disk_inv fs st" "name_fit nm" "disk_write_file nm data fs st = (Inr (), fs', st')"
  shows "disk_inv fs' st' \<and> disk_files fs' st' = (disk_files fs st)(nm \<mapsto> data) \<and> disk_mount st' = Inr fs'"
proof (cases "\<exists>e \<in> set (df_entries fs). named nm e")
  case True
  then obtain fs1 st1 where d: "disk_delete_file nm fs st = (Inr (), fs1, st1)"
    "disk_store nm data fs1 st1 = (Inr (), fs', st')"
    using assms(3) by (auto simp: disk_write_file_def sbind_Inr_iff)
  from disk_store_ok [OF disk_delete_ok(1) [OF assms(1) d(1)] assms(2) disk_delete_ok(4) [OF assms(1) d(1)] d(2)]
    disk_delete_ok(2) [OF assms(1) d(1)]
  show ?thesis by (simp add: disk_inv_def)
next
  case False
  with assms disk_store_ok [OF assms(1,2)] show ?thesis by (auto simp: disk_write_file_def disk_inv_def)
qed

section \<open>Formatting\<close>

definition fresh_bitmap :: bytes where
  "fresh_bitmap = fold bm_set [0..<DATA_START] (replicate (BITMAP_SECTORS * SECTOR_SIZE) 0)"

definition fresh_fs :: "u64 \<Rightarrow> diskfs" where
  "fresh_fs n = \<lparr>df_entries = replicate MAX_FILES zeroed_entry, df_bitmap = fresh_bitmap, df_total_sectors = n\<rparr>"

lemma fresh_bitmap: "length fresh_bitmap = 2048" "s < 16384 \<Longrightarrow> bm_test fresh_bitmap s \<longleftrightarrow> s < DATA_START"
proof -
  have "\<forall>s \<in> set [0..<DATA_START]. s div 8 < length (replicate (BITMAP_SECTORS * SECTOR_SIZE) (0 :: u8))" by auto
  note f = fold_bm_set [OF this]
  show "length fresh_bitmap = 2048" using f [of 0] by (simp add: fresh_bitmap_def)
  assume "s < 16384"
  then have "\<not> bm_test (replicate (BITMAP_SECTORS * SECTOR_SIZE) 0) s" by (simp add: bm_test_def)
  then show "bm_test fresh_bitmap s \<longleftrightarrow> s < DATA_START" using f [of s] by (simp add: fresh_bitmap_def)
qed

lemma fresh_ok: "disk_ok (fresh_fs n)"
  by (simp add: disk_ok_def fresh_fs_def fresh_bitmap entry_ok_def)

lemma disk_files_fresh: "disk_files (fresh_fs n) st = Map.empty"
proof
  fix nm
  have "find (named nm) (replicate MAX_FILES zeroed_entry) = None" by (simp add: find_None_iff named_def)
  then show "disk_files (fresh_fs n) st nm = None" by (simp add: disk_files_def disk_read_file_def fresh_fs_def)
qed

lemma disk_format_ok:
  assumes f: "disk_format n st = (Inr fs, st')" and n: "n < 2 ^ 32"
    and b: "\<forall>a < n. DATA_START \<le> unat a \<longrightarrow> (\<exists>buf. read_sector_internal a st = Inr buf)"
  shows "fs = fresh_fs n" "disk_inv fs st'"
proof -
  let ?Z = "replicate SECTOR_SIZE (0 :: u8)"
  obtain s1 s2 s3 where w: "write_sector_internal 0 (superblock_bytes (new_superblock 0 n)) st = (Inr (), s1)"
    "write_run write_sector_internal BITMAP_START (replicate BITMAP_SECTORS ?Z) s1 = (Inr (), s2)"
    "write_run write_sector_internal ENTRY_START (replicate MAX_FILES ?Z) s2 = (Inr (), s3)"
    "write_run write_sector_internal BITMAP_START (bitmap_sectors fresh_bitmap) s3 = (Inr (), st')"
    and fs: "fs = fresh_fs n"
    using f by (auto simp: disk_format_def Let_def sbind_Inr_iff fresh_bitmap_def fresh_fs_def simp del: write_run.simps)
  show "fs = fresh_fs n" by (rule fs)
  note bt = bitmap_round_trip [OF fresh_bitmap(1)]
  have len: "length (bitmap_sectors fresh_bitmap) = 4" by (simp add: bitmap_sectors_def)
  have at1: "a \<in> run_addrs 1 4 \<longleftrightarrow> 1 \<le> unat a \<and> unat a < 5" for a
    using run_addrs_unat [of 1 4 a] by simp
  have at5: "a \<in> run_addrs 5 64 \<longleftrightarrow> 5 \<le> unat a \<and> unat a < 69" for a
    using run_addrs_unat [of 5 64 a] by simp
  have r4: "read_sector_internal a st' = read_sector_internal a s3" if "\<not> (1 \<le> unat a \<and> unat a < 5)" for a
    using disk_sectors.write_run_other [OF w(4), of a] that at1 len by simp
  have r3: "read_sector_internal a s3 = read_sector_internal a s2" if "\<not> (5 \<le> unat a \<and> unat a < 69)" for a
    using disk_sectors.write_run_other [OF w(3), of a] that at5 by simp
  have r2: "read_sector_internal a s2 = read_sector_internal a s1" if "\<not> (1 \<le> unat a \<and> unat a < 5)" for a
    using disk_sectors.write_run_other [OF w(2), of a] that at1 by simp
  have "read_sector_internal 0 st' = Inr (superblock_bytes (new_superblock 0 n))"
    using r4 [of 0] r3 [of 0] r2 [of 0] disk_sectors.wr_same [OF superblock_round_trip(1) w(1)] by simp
  moreover have "read_run read_sector_internal BITMAP_START BITMAP_SECTORS st' = Inr (bitmap_sectors fresh_bitmap)"
    using disk_sectors.write_run_same [OF w(4)] bt len by simp
  moreover have "read_run read_sector_internal ENTRY_START MAX_FILES st' = Inr (replicate MAX_FILES ?Z)"
    using disk_sectors.write_run_same [OF w(3)] disk_sectors.read_run_cong [of 5 64 st' s3] r4 at5 by simp
  moreover have "entry_of ?Z = zeroed_entry" using entry_round_trip [OF zeroed_entry_fit(1)] entry_bytes_zeroed by simp
  moreover have "(ucast (ucast n :: u32) :: u64) = n"
    using n by (simp add: word_unat_eq_iff unsigned_ucast_eq unsigned_take_bit_eq take_bit_nat_eq_self word_less_nat_alt)
  ultimately have m: "disk_mount st' = Inr fs"
    unfolding disk_mount_iff using bt by (simp add: superblock_round_trip(2) fs fresh_fs_def) (simp add: new_superblock_def)
  have "read_sector_internal a st' = read_sector_internal a st" if "DATA_START \<le> unat a" for a
    using r4 [of a] r3 [of a] r2 [of a] disk_sectors.wr_other [OF w(1), of a] that by fastforce
  with b have "backed fs st'" by (simp add: backed_def fs fresh_fs_def)
  with m fresh_ok fs show "disk_inv fs st'" by (simp add: disk_inv_def)
qed

section \<open>A disk that accepts writes\<close>

definition virtio_only :: "u64 \<Rightarrow> storage \<Rightarrow> bool" where
  "virtio_only n st \<longleftrightarrow> \<not> st_usb st \<and> st_nvme st = None \<and> st_ahci st = None \<and> st_ide st = None
     \<and> (\<exists>d. st_virtio st = Some d \<and> dk_capacity d = n)"

lemma virtio_write: "virtio_only n st \<Longrightarrow> a < n \<Longrightarrow> \<exists>st'. write_sector_internal a b st = (Inr (), st') \<and> virtio_only n st'"
  by (auto simp: virtio_only_def write_sector_internal_def dev_write_def Let_def)

lemma virtio_write_run:
  "virtio_only n st \<Longrightarrow> \<forall>x \<in> run_addrs a (length bs). x < n \<Longrightarrow>
   \<exists>st'. write_run write_sector_internal a bs st = (Inr (), st') \<and> virtio_only n st'"
proof (induction bs arbitrary: a st)
  case (Cons b bs)
  then obtain t where "write_sector_internal a b st = (Inr (), t)" "virtio_only n t"
    using virtio_write [of n st a b] by auto
  with Cons.IH [of t "a + 1"] Cons.prems(2) show ?case by simp
qed simp

lemma virtio_read: "virtio_only n st \<Longrightarrow> a < n \<Longrightarrow> \<exists>buf. read_sector_internal a st = Inr buf"
  by (auto simp: virtio_only_def read_sector_internal_def dev_read_def)

lemma virtio_run:
  assumes "virtio_only n st" "start + length bs \<le> unat n" "unat n \<le> 16384"
  shows "\<exists>st'. write_run write_sector_internal (of_nat start) bs st = (Inr (), st') \<and> virtio_only n st'"
  using assms run_addrs_unat [of start "length bs"]
  by (intro virtio_write_run) (auto simp: word_less_nat_alt)

lemma virtio_format:
  assumes v: "virtio_only n st" and n: "unat n \<le> 16384" "DATA_START \<le> unat n"
  shows "\<exists>st'. disk_format n st = (Inr (fresh_fs n), st') \<and> virtio_only n st'"
proof -
  let ?Z = "replicate SECTOR_SIZE (0 :: u8)"
  have len: "length (bitmap_sectors fresh_bitmap) = 4" by (simp add: bitmap_sectors_def)
  obtain s1 where s1: "write_sector_internal 0 (superblock_bytes (new_superblock 0 n)) st = (Inr (), s1)" "virtio_only n s1"
    using virtio_write [OF v, of 0] n by (auto simp: word_less_nat_alt)
  obtain s2 where s2: "write_run write_sector_internal 1 (replicate BITMAP_SECTORS ?Z) s1 = (Inr (), s2)" "virtio_only n s2"
    using virtio_run [OF s1(2), of 1 "replicate BITMAP_SECTORS ?Z"] n by auto
  obtain s3 where s3: "write_run write_sector_internal 5 (replicate MAX_FILES ?Z) s2 = (Inr (), s3)" "virtio_only n s3"
    using virtio_run [OF s2(2), of 5 "replicate MAX_FILES ?Z"] n by auto
  obtain s4 where s4: "write_run write_sector_internal 1 (bitmap_sectors fresh_bitmap) s3 = (Inr (), s4)" "virtio_only n s4"
    using virtio_run [OF s3(2), of 1 "bitmap_sectors fresh_bitmap"] n len by auto
  show ?thesis
    using s1 s2(1) s3(1) s4
    by (auto simp: disk_format_def Let_def fresh_fs_def fresh_bitmap_def simp del: write_run.simps)
qed

lemma virtio_sync_all:
  assumes v: "virtio_only n st" and n: "unat n \<le> 16384" "DATA_START \<le> unat n" and slot: "slot < MAX_FILES"
  shows "\<exists>st'. sync_all slot fs st = (Inr (), st') \<and> virtio_only n st'"
proof -
  have len: "length (bitmap_sectors (df_bitmap fs)) = 4" by (simp add: bitmap_sectors_def)
  obtain s1 where s1: "sync_entry slot fs st = (Inr (), s1)" "virtio_only n s1"
    using virtio_write [OF v, of "5 + of_nat slot"] metadata_addr(1) [of slot 64] slot n
    by (auto simp: sync_entry_def word_less_nat_alt)
  obtain s2 where s2: "sync_bitmap fs s1 = (Inr (), s2)" "virtio_only n s2"
    using virtio_run [OF s1(2), of 1 "bitmap_sectors (df_bitmap fs)"] n len by (auto simp: sync_bitmap_def)
  obtain s3 where s3: "sync_superblock fs s2 = (Inr (), s3)" "virtio_only n s3"
    using virtio_write [OF s2(2), of 0] n by (auto simp: sync_superblock_def word_less_nat_alt)
  show ?thesis using s1(1) s2(1) s3 by (simp add: sync_all_def)
qed

lemma virtio_store:
  assumes v: "virtio_only (df_total_sectors fs) st" and n: "unat (df_total_sectors fs) \<le> 16384" "DATA_START \<le> unat (df_total_sectors fs)"
    and ok: "disk_ok fs" and slot: "\<exists>e \<in> set (df_entries fs). \<not> is_active e"
    and al: "alloc_sectors (max (sectors_needed data) 1) fs = Some (Some start, fs1)"
  shows "\<exists>fs' st'. disk_store nm data fs st = (Inr (), fs', st')"
proof -
  obtain slot where sl: "position (\<lambda>e. \<not> is_active e) (df_entries fs) = Some slot"
    using slot position_NoneD [of "\<lambda>e. \<not> is_active e" "df_entries fs"] by (cases "position (\<lambda>e. \<not> is_active e) (df_entries fs)") auto
  have lt: "slot < MAX_FILES" using position_SomeD [OF sl] ok by (simp add: disk_ok_def)
  have pos: "0 < max (sectors_needed data) 1" by simp
  have "start + sectors_needed data \<le> unat (df_total_sectors fs)"
    using alloc_sectors_free(2) [OF al pos] by linarith
  then obtain s1 where s1: "write_run write_sector_internal (of_nat start) (map (data_sector data) [0..<sectors_needed data]) st = (Inr (), s1)"
    "virtio_only (df_total_sectors fs) s1"
    using virtio_run [OF v, of start "map (data_sector data) [0..<sectors_needed data]"] n by auto
  let ?fs = "fs1\<lparr>df_entries := (df_entries fs1)[slot := stored_entry nm data start (df_entries fs1 ! slot)]\<rparr>"
  obtain s2 where "sync_all slot ?fs s1 = (Inr (), s2)" using virtio_sync_all [OF s1(2) n lt] by blast
  then have "disk_store nm data fs st = (Inr (), ?fs, s2)"
    using sl al s1(1) by (simp add: disk_store_def Let_def stored_entry_def)
  then show ?thesis by blast
qed

definition demo_storage :: storage where
  "demo_storage = \<lparr>st_nvme = None, st_ahci = None, st_ide = None,
     st_virtio = Some \<lparr>dk_capacity = 100, dk_sectors = (\<lambda>_. replicate SECTOR_SIZE 0)\<rparr>, st_usb = False,
     st_encryption = \<lparr>ee_key = replicate 32 0, ee_enabled = False\<rparr>\<rparr>"

lemma fresh_alloc: "\<exists>fs1. alloc_sectors 1 (fresh_fs 100) = Some (Some DATA_START, fs1)"
proof -
  have "[DATA_START..<100] = DATA_START # [Suc DATA_START..<100]" by (rule upt_conv_Cons) simp
  then show ?thesis using fresh_bitmap(1) fresh_bitmap(2) [of DATA_START] by (simp add: alloc_sectors_def fresh_fs_def)
qed

lemma demo_write:
  "\<exists>fs st fs' st'. disk_inv fs st \<and> disk_files fs st = Map.empty \<and> disk_write_file [97] [1, 2, 3] fs st = (Inr (), fs', st')"
proof -
  have v: "virtio_only 100 demo_storage" by (simp add: virtio_only_def demo_storage_def)
  obtain st where st: "disk_format 100 demo_storage = (Inr (fresh_fs 100), st)" "virtio_only 100 st"
    using virtio_format [OF v] by auto
  have inv: "disk_inv (fresh_fs 100) st"
    by (rule disk_format_ok(2) [OF st(1)]) (use virtio_read [OF v] in auto)
  obtain fs1 where al: "alloc_sectors 1 (fresh_fs 100) = Some (Some DATA_START, fs1)" using fresh_alloc by blast
  have tot: "df_total_sectors (fresh_fs 100) = 100" by (simp add: fresh_fs_def)
  have free: "\<exists>e \<in> set (df_entries (fresh_fs 100)). \<not> is_active e" by (simp add: fresh_fs_def)
  have n1: "max (sectors_needed [1, 2, 3 :: u8]) 1 = 1" by (simp add: sectors_needed_def)
  obtain fs' st' where "disk_store [97] [1, 2, 3] (fresh_fs 100) st = (Inr (), fs', st')"
    using virtio_store [of "fresh_fs 100" st "[1, 2, 3]" DATA_START fs1 "[97]", unfolded tot n1] st(2) fresh_ok al free by auto
  moreover have "\<not> (\<exists>e \<in> set (df_entries (fresh_fs 100)). named [97] e)" by (simp add: fresh_fs_def named_def)
  ultimately have "disk_write_file [97] [1, 2, 3] (fresh_fs 100) st = (Inr (), fs', st')" by (simp add: disk_write_file_def)
  with inv disk_files_fresh show ?thesis by blast
qed

theorem disk_write_refines_witness:
  "\<exists>fs st. disk_inv fs st \<and> disk_files fs st = [[97] \<mapsto> [1, 2, 3]]"
proof -
  obtain fs st fs' st' where d: "disk_inv fs st" "disk_files fs st = Map.empty"
    "disk_write_file [97] [1, 2, 3] fs st = (Inr (), fs', st')" using demo_write by blast
  have "name_fit [97]" by (simp add: name_fit_def)
  from disk_write_refines [OF d(1) this d(3)] d(2) show ?thesis by auto
qed

section \<open>Full disks\<close>

text \<open>
  The bitmap has a bit for 16384 sectors. On a larger device the search for free sectors runs past
  its end when they are all taken.
\<close>

lemma alloc_scan_overrun:
  "\<forall>s < 8 * length bm. bm_test bm s \<Longrightarrow> k \<le> 8 * length bm \<Longrightarrow> 8 * length bm < m \<Longrightarrow> alloc_scan c [k..<m] a 0 bm = None"
proof (induction "m - k" arbitrary: k)
  case (Suc d)
  then have u: "[k..<m] = k # [Suc k..<m]" by (intro upt_conv_Cons) simp
  show ?case
  proof (cases "k = 8 * length bm")
    case False
    then have "k < 8 * length bm" using Suc.prems(2) by simp
    with Suc u show ?thesis by simp
  next
    case True
    then have "length bm \<le> k div 8" by simp
    then show ?thesis unfolding u by simp
  qed
qed simp

lemma bitmap_exhausted_panics:
  assumes "disk_ok fs" "\<forall>s < 16384. bm_test (df_bitmap fs) s" "16384 < unat (df_total_sectors fs)"
  shows "alloc_sectors c fs = None"
  using assms alloc_scan_overrun [of "df_bitmap fs" DATA_START "unat (df_total_sectors fs)" c DATA_START]
  by (simp add: alloc_sectors_def disk_ok_def)

text \<open>Replacing a file deletes it before it is known whether its new contents fit.\<close>

lemma overwrite_without_space_loses_file:
  assumes "disk_inv fs st" "\<exists>e \<in> set (df_entries fs). named nm e" "disk_delete_file nm fs st = (Inr (), fs1, st1)"
    "alloc_sectors (max (sectors_needed data) 1) fs1 = Some (None, fs1)" "\<exists>e \<in> set (df_entries fs1). \<not> is_active e"
  shows "disk_write_file nm data fs st = (Inl (IoErr ''No free sectors''), fs1, st1) \<and> disk_files fs1 st1 nm = None"
proof -
  obtain slot where "position (\<lambda>e. \<not> is_active e) (df_entries fs1) = Some slot"
    using assms(5) position_NoneD [of "\<lambda>e. \<not> is_active e" "df_entries fs1"]
    by (cases "position (\<lambda>e. \<not> is_active e) (df_entries fs1)") auto
  with assms(4) have "disk_store nm data fs1 st1 = (Inl (IoErr ''No free sectors''), fs1, st1)"
    by (simp add: disk_store_def Let_def)
  with assms(2,3) disk_delete_ok(2) [OF assms(1,3)] show ?thesis by (simp add: disk_write_file_def)
qed

section \<open>A new key at every start\<close>

lemma le_nat_inj: "length xs = length ys \<Longrightarrow> le_nat xs = le_nat ys \<Longrightarrow> xs = ys"
  by (metis le_bytes_le_nat)

definition with_key :: "bytes \<Rightarrow> storage \<Rightarrow> storage" where
  "with_key k st = st\<lparr>st_encryption := \<lparr>ee_key = k, ee_enabled = True\<rparr>\<rparr>"

definition raw_read :: "u64 \<Rightarrow> storage \<Rightarrow> string + bytes" where
  "raw_read lba st = read_sector_internal lba (st\<lparr>st_encryption := \<lparr>ee_key = [], ee_enabled = False\<rparr>\<rparr>)"

lemma read_with_key:
  "read_sector_internal lba (with_key k st) = rbind (raw_read lba st) (\<lambda>buf. Inr (decrypt \<lparr>ee_key = k, ee_enabled = True\<rparr> lba buf))"
proof -
  let ?r = "try_read lba (st_nvme st) (try_read lba (st_ahci st) (try_read lba (st_ide st)
       (case st_virtio st of None \<Rightarrow> Inl ''Block device not initialized'' | Some d \<Rightarrow> dev_read lba d)))"
  have "raw_read lba st = ?r" by (cases ?r) (simp_all add: raw_read_def read_sector_internal_def decrypt_def)
  then show ?thesis by (simp add: read_sector_internal_def with_key_def)
qed

lemma magic_bytes:
  assumes "sb_magic (superblock_of buf) = DISKFS_MAGIC"
  shows "take 4 buf = to_le_bytes DISKFS_MAGIC"
proof -
  have bound: "le_nat (take 4 buf) < 256 ^ length (take 4 buf)" by (rule le_nat_bound)
  also have "\<dots> \<le> 256 ^ 4" by (rule power_increasing) simp_all
  finally have small: "le_nat (take 4 buf) < 2 ^ 32" by simp
  have "unat (sb_magic (superblock_of buf)) = le_nat (take 4 buf)"
    using small by (simp add: superblock_of_def from_le_bytes_def subslice_def unat_of_nat take_bit_nat_eq_self)
  then have val: "le_nat (take 4 buf) = 0x534D4654" using assms by simp
  have len: "length (take 4 buf) = 4"
  proof (rule ccontr)
    assume "length (take 4 buf) \<noteq> 4"
    then have "length (take 4 buf) \<le> 3" by simp
    then have "(256 :: nat) ^ length (take 4 buf) \<le> 256 ^ 3" by (rule power_increasing) simp
    with bound val show False by simp
  qed
  have "le_bytes 4 (le_nat (take 4 buf)) = take 4 buf" using le_bytes_le_nat [of "take 4 buf"] len by simp
  then show ?thesis by (simp add: to_le_bytes_def val)
qed

lemma decrypt_nth:
  "i < length raw \<Longrightarrow> i < 32 \<Longrightarrow>
   decrypt \<lparr>ee_key = k, ee_enabled = True\<rparr> lba raw ! i = raw ! i XOR (k ! i XOR (ucast lba + of_nat i))"
  by (simp add: decrypt_def)

lemma xor_left_cancel: "x XOR a = x XOR b \<longleftrightarrow> a = (b :: 'a::len word)"
proof
  assume "x XOR a = x XOR b"
  then have "x XOR (x XOR a) = x XOR (x XOR b)" by simp
  then show "a = b" by (simp flip: xor.assoc)
qed simp

lemma two_keys:
  assumes m: "sb_magic (superblock_of (decrypt \<lparr>ee_key = k1, ee_enabled = True\<rparr> 0 raw)) = DISKFS_MAGIC"
    "sb_magic (superblock_of (decrypt \<lparr>ee_key = k2, ee_enabled = True\<rparr> 0 raw)) = DISKFS_MAGIC"
    and k: "length k1 = 32" "length k2 = 32"
  shows "take 4 k1 = take 4 k2"
proof -
  let ?d = "\<lambda>k. decrypt \<lparr>ee_key = k, ee_enabled = True\<rparr> 0 raw"
  have eq: "take 4 (?d k1) = take 4 (?d k2)" using magic_bytes [OF m(1)] magic_bytes [OF m(2)] by simp
  have "length (take 4 (?d k1)) = 4" by (simp only: magic_bytes [OF m(1)] length_to_le_bytes) simp
  then have len: "4 \<le> length raw" by (simp add: decrypt_def)
  have "k1 ! i = k2 ! i" if i: "i < 4" for i
  proof -
    have "?d k1 ! i = ?d k2 ! i" using arg_cong [OF eq, of "\<lambda>xs. xs ! i"] i by simp
    then have "of_nat i XOR k1 ! i = of_nat i XOR k2 ! i"
      using i len by (simp add: decrypt_nth xor_left_cancel xor.commute [of _ "of_nat i"])
    then show ?thesis by (simp only: xor_left_cancel)
  qed
  with k show ?thesis by (intro nth_equalityI) simp_all
qed

text \<open>
  C0: encryption loses the files at every start. The key comes from the random generator of the
  security chip and is stored nowhere. With a key that differs from the previous one in its first
  four bytes the superblock is not recognised, and the initialisation formats the disk: whatever
  was mounted before, the new file system is empty.
\<close>

theorem new_key_reformats:
  assumes "disk_mount (with_key k1 st) = Inr fs" "length k1 = 32" "length k2 = 32" "take 4 k1 \<noteq> take 4 k2"
    "disk_init True (Some k2) st = (Some fs', st')"
  shows "disk_files fs' st' = Map.empty"
proof -
  obtain raw where raw: "raw_read 0 st = Inr raw"
    and m1: "sb_magic (superblock_of (decrypt \<lparr>ee_key = k1, ee_enabled = True\<rparr> 0 raw)) = DISKFS_MAGIC"
    using assms(1) by (auto simp: disk_mount_iff read_with_key rbind_Inr_iff)
  have "sb_magic (superblock_of (decrypt \<lparr>ee_key = k2, ee_enabled = True\<rparr> 0 raw)) \<noteq> DISKFS_MAGIC"
    using two_keys [OF m1 _ assms(2,3)] assms(4) by blast
  then have mount: "disk_mount (with_key k2 st) = Inl ''No filesystem found''"
    by (simp add: disk_mount_def read_superblock_def read_with_key raw)
  have init: "init_encryption True (Some k2) st = with_key k2 st" by (simp add: init_encryption_def with_key_def)
  obtain n where "disk_format n (with_key k2 st) = (Inr fs', st')"
    using assms(5) mount by (auto simp: disk_init_def Let_def init split: option.splits if_splits sum.splits prod.splits)
  then have "fs' = fresh_fs n"
    by (auto simp: disk_format_def Let_def sbind_Inr_iff fresh_bitmap_def fresh_fs_def simp del: write_run.simps)
  then show ?thesis by (simp add: disk_files_fresh)
qed

lemma write_keeps_key: "write_sector_internal a b st = (r, st') \<Longrightarrow> st_encryption st' = st_encryption st"
  by (auto simp: write_sector_internal_def Let_def split: option.splits prod.splits)

lemma write_run_keeps_key: "write_run write_sector_internal a bs st = (Inr (), st') \<Longrightarrow> st_encryption st' = st_encryption st"
  by (induction bs arbitrary: a st) (auto simp: sbind_Inr_iff dest: write_keeps_key)

lemma format_keeps_key: "disk_format n st = (Inr fs, st') \<Longrightarrow> st_encryption st' = st_encryption st"
  by (auto simp: disk_format_def Let_def sbind_Inr_iff simp del: write_run.simps dest!: write_keeps_key write_run_keeps_key)

theorem new_key_reformats_witness:
  "\<exists>st fs fs' st'. disk_mount (with_key (replicate 32 1) st) = Inr fs
     \<and> disk_init True (Some (replicate 32 2)) st = (Some fs', st') \<and> disk_files fs' st' = Map.empty"
proof -
  let ?k1 = "replicate 32 (1 :: u8)" and ?k2 = "replicate 32 (2 :: u8)"
  have v: "virtio_only 100 (with_key ?k1 demo_storage)" by (simp add: virtio_only_def demo_storage_def with_key_def)
  obtain st where st: "disk_format 100 (with_key ?k1 demo_storage) = (Inr (fresh_fs 100), st)" "virtio_only 100 st"
    using virtio_format [OF v] by auto
  have "disk_inv (fresh_fs 100) st" by (rule disk_format_ok(2) [OF st(1)]) (use virtio_read [OF v] in auto)
  moreover have "with_key ?k1 st = st" using format_keeps_key [OF st(1)] by (simp add: with_key_def)
  ultimately have m: "disk_mount (with_key ?k1 st) = Inr (fresh_fs 100)" by (simp add: disk_inv_def)
  have v2: "virtio_only 100 (with_key ?k2 st)" using st(2) by (simp add: virtio_only_def with_key_def)
  obtain st2 where f: "disk_format 100 (with_key ?k2 st) = (Inr (fresh_fs 100), st2)" using virtio_format [OF v2] by auto
  have "primary_capacity st = Some 100" using st(2) by (auto simp: primary_capacity_def virtio_only_def)
  moreover have "init_encryption True (Some ?k2) st = with_key ?k2 st" by (simp add: init_encryption_def with_key_def)
  ultimately have "\<exists>fs' st'. disk_init True (Some ?k2) st = (Some fs', st')"
    using f by (cases "disk_mount (with_key ?k2 st)") (simp_all add: disk_init_def)
  then obtain fs' st' where i: "disk_init True (Some ?k2) st = (Some fs', st')" by blast
  from new_key_reformats [OF m _ _ _ i] m i show ?thesis by auto
qed

end
