(* ===== verification/Fs_Journal.thy ===== *)
theory Fs_Journal
  imports Fs_Disk
begin

text \<open>
  The write-ahead journal of SmartFS (\<open>kernel/src/smartfs/journal.rs\<close>): transactions, the ring of
  journal blocks, commit and checkpoint. The block device is an argument (\<open>wr\<close>, the method
  \<open>write_blocks\<close> of the trait); \<open>sector_store\<close> with blocks of 4096 bytes is what the code expects of
  it. The source has no recovery: \<open>recover\<close> is a reference reader of the journal that shows that a
  commit writes enough to redo the transaction.
\<close>

datatype journal_op = WriteBlock u64 bytes | UpdateInode u64 bytes

record transaction =
  tx_id :: u64
  tx_operations :: "journal_op list"

record descriptor_block =
  ds_magic :: u32
  ds_tx_id :: u64
  ds_num_entries :: u32
  ds_target_lbas :: "u64 list"

record journal =
  jn_start_lba :: u64
  jn_size_blocks :: u64
  jn_head :: u64
  jn_tail :: u64
  jn_next_tx_id :: u64
  jn_uncheckpointed :: "transaction list"

abbreviation DESCRIPTOR_MAGIC :: u32 where "DESCRIPTOR_MAGIC \<equiv> 0x4A4F5552"

definition journal_init :: "u64 \<Rightarrow> u64 \<Rightarrow> journal" where
  "journal_init start size_blocks = \<lparr>jn_start_lba = start, jn_size_blocks = size_blocks, jn_head = 0, jn_tail = 0,
     jn_next_tx_id = 1, jn_uncheckpointed = []\<rparr>"

definition journal_begin :: "journal \<Rightarrow> transaction \<times> journal" where
  "journal_begin j = (\<lparr>tx_id = jn_next_tx_id j, tx_operations = []\<rparr>, j\<lparr>jn_next_tx_id := jn_next_tx_id j + 1\<rparr>)"

text \<open>The message about a full ring has no effect on the state.\<close>

definition advance_head :: "journal \<Rightarrow> journal" where
  "advance_head j = j\<lparr>jn_head := (jn_head j + 1) mod jn_size_blocks j\<rparr>"

text \<open>The packed layout of a descriptor, copied to the front of a zeroed block.\<close>

definition descriptor_bytes :: "descriptor_block \<Rightarrow> bytes" where
  "descriptor_bytes d = to_le_bytes (ds_magic d) @ to_le_bytes (ds_tx_id d) @ to_le_bytes (ds_num_entries d)
     @ concat (map to_le_bytes (ds_target_lbas d)) @ replicate 8 0"

definition commit_block :: "u64 \<Rightarrow> bytes" where
  "commit_block txid = ascii ''COMM'' @ to_le_bytes txid @ replicate 4084 0"

fun collect :: "journal_op list \<Rightarrow> descriptor_block \<Rightarrow> bytes list \<Rightarrow> descriptor_block \<times> bytes list" where
  "collect [] desc blks = (desc, blks)"
| "collect (WriteBlock lba data # xs) desc blks =
     (if ds_num_entries desc < 509
      then collect xs (desc\<lparr>ds_target_lbas := (ds_target_lbas desc)[unat (ds_num_entries desc) := lba],
                            ds_num_entries := ds_num_entries desc + 1\<rparr>) (blks @ [data])
      else (desc, blks))"
| "collect (UpdateInode ino meta # xs) desc blks = collect xs desc blks"

definition put_block :: "(u64 \<Rightarrow> bytes \<Rightarrow> 'd \<Rightarrow> (string + unit) \<times> 'd) \<Rightarrow> bytes \<Rightarrow> journal \<times> 'd \<Rightarrow> (string + unit) \<times> journal \<times> 'd" where
  "put_block wr block = (\<lambda>(j, d).
     case wr (jn_start_lba j + jn_head j) block d of
       (Inl e, d) \<Rightarrow> (Inl e, j, d)
     | (Inr _, d) \<Rightarrow> (Inr (), advance_head j, d))"

fun put_blocks :: "(u64 \<Rightarrow> bytes \<Rightarrow> 'd \<Rightarrow> (string + unit) \<times> 'd) \<Rightarrow> bytes list \<Rightarrow> journal \<times> 'd \<Rightarrow> (string + unit) \<times> journal \<times> 'd" where
  "put_blocks wr [] s = (Inr (), s)"
| "put_blocks wr (b # bs) s = sbind (put_block wr b s) (\<lambda>_ s. put_blocks wr bs s)"

definition journal_commit ::
  "(u64 \<Rightarrow> bytes \<Rightarrow> 'd \<Rightarrow> (string + unit) \<times> 'd) \<Rightarrow> transaction \<Rightarrow> journal \<times> 'd \<Rightarrow> (string + unit) \<times> journal \<times> 'd" where
  "journal_commit wr tx s =
     (if tx_operations tx = [] then (Inr (), s)
      else case collect (tx_operations tx)
             \<lparr>ds_magic = DESCRIPTOR_MAGIC, ds_tx_id = tx_id tx, ds_num_entries = 0, ds_target_lbas = replicate 509 0\<rparr> [] of
        (desc, data_blocks) \<Rightarrow>
          sbind (put_block wr (descriptor_bytes desc) s) (\<lambda>_ s.
          sbind (put_blocks wr data_blocks s) (\<lambda>_ s.
          sbind (put_block wr (commit_block (tx_id tx)) s) (\<lambda>_ (j, d).
            (Inr (), j\<lparr>jn_uncheckpointed := jn_uncheckpointed j @ [tx]\<rparr>, d)))))"

fun install :: "(u64 \<Rightarrow> bytes \<Rightarrow> 'd \<Rightarrow> (string + unit) \<times> 'd) \<Rightarrow> journal_op list \<Rightarrow> 'd \<Rightarrow> (string + unit) \<times> 'd" where
  "install wr [] d = (Inr (), d)"
| "install wr (WriteBlock lba data # xs) d = sbind (wr lba data d) (\<lambda>_ d. install wr xs d)"
| "install wr (UpdateInode ino meta # xs) d = install wr xs d"

text \<open>The transactions leave the queue before their blocks are written (\<open>drain\<close>).\<close>

definition checkpoint ::
  "(u64 \<Rightarrow> bytes \<Rightarrow> 'd \<Rightarrow> (string + unit) \<times> 'd) \<Rightarrow> journal \<times> 'd \<Rightarrow> (string + nat) \<times> journal \<times> 'd" where
  "checkpoint wr = (\<lambda>(j, d).
     if jn_uncheckpointed j = [] then (Inr 0, j, d)
     else
       let count = length (jn_uncheckpointed j);
           txs = jn_uncheckpointed j;
           j = j\<lparr>jn_uncheckpointed := []\<rparr>
       in case install wr (concat (map tx_operations txs)) d of
            (Inl e, d) \<Rightarrow> (Inl e, j, d)
          | (Inr _, d) \<Rightarrow> (Inr count, j\<lparr>jn_tail := jn_head j\<rparr>, d))"

text \<open>The block writes of a list of operations.\<close>

fun writes :: "journal_op list \<Rightarrow> (u64 \<times> bytes) list" where
  "writes [] = []"
| "writes (WriteBlock lba data # xs) = (lba, data) # writes xs"
| "writes (UpdateInode ino meta # xs) = writes xs"

lemma writes_lengths: "\<forall>lba b. WriteBlock lba b \<in> set ops \<longrightarrow> length b = m \<Longrightarrow> (lba, b) \<in> set (writes ops) \<Longrightarrow> length b = m"
  by (induction ops rule: writes.induct) auto

section \<open>The ring of blocks\<close>

definition journal_ok :: "journal \<Rightarrow> bool" where
  "journal_ok j \<longleftrightarrow> jn_head j < jn_size_blocks j \<and> unat (jn_start_lba j) + unat (jn_size_blocks j) < 2 ^ 64"

definition ring_pos :: "journal \<Rightarrow> nat \<Rightarrow> nat" where
  "ring_pos j k = (unat (jn_head j) + k) mod unat (jn_size_blocks j)"

definition ring_addr :: "journal \<Rightarrow> nat \<Rightarrow> u64" where
  "ring_addr j k = jn_start_lba j + of_nat (ring_pos j k)"

lemma size_pos: "journal_ok j \<Longrightarrow> 0 < unat (jn_size_blocks j)"
  by (auto simp: journal_ok_def word_less_nat_alt)

lemma advance_head_unat:
  assumes "journal_ok j"
  shows "unat (jn_head (advance_head j)) = (unat (jn_head j) + 1) mod unat (jn_size_blocks j)"
proof -
  have "unat (jn_head j) + 1 < 2 ^ 64" using assms by (simp add: journal_ok_def word_less_nat_alt)
  then show ?thesis by (simp add: advance_head_def unat_mod_distrib unat_word_ariths)
qed

lemma advance_head_ok: "journal_ok j \<Longrightarrow> journal_ok (advance_head j)"
  using advance_head_unat [of j] size_pos [of j]
  by (simp add: journal_ok_def word_less_nat_alt) (simp add: advance_head_def)

lemma advance_head_sel [simp]:
  "jn_start_lba (advance_head j) = jn_start_lba j" "jn_size_blocks (advance_head j) = jn_size_blocks j"
  "jn_uncheckpointed (advance_head j) = jn_uncheckpointed j" "jn_tail (advance_head j) = jn_tail j"
  "jn_next_tx_id (advance_head j) = jn_next_tx_id j"
  by (simp_all add: advance_head_def)

lemma ring_addr_advance: "journal_ok j \<Longrightarrow> ring_addr (advance_head j) k = ring_addr j (Suc k)"
  by (simp add: ring_addr_def ring_pos_def advance_head_unat mod_add_left_eq)

lemma ring_addr_0: "journal_ok j \<Longrightarrow> ring_addr j 0 = jn_start_lba j + jn_head j"
  by (simp add: ring_addr_def ring_pos_def journal_ok_def word_less_nat_alt)

lemma unat_ring_addr: "journal_ok j \<Longrightarrow> unat (ring_addr j k) = unat (jn_start_lba j) + ring_pos j k"
proof -
  assume ok: "journal_ok j"
  have "ring_pos j k < unat (jn_size_blocks j)" using size_pos [OF ok] by (simp add: ring_pos_def)
  with ok have "unat (jn_start_lba j) + ring_pos j k < 2 ^ 64" by (simp add: journal_ok_def)
  then show ?thesis by (simp add: ring_addr_def unat_word_ariths unat_of_nat take_bit_nat_eq_self)
qed

lemma ring_addr_inj:
  "journal_ok j \<Longrightarrow> i < unat (jn_size_blocks j) \<Longrightarrow> k < unat (jn_size_blocks j) \<Longrightarrow> ring_addr j i = ring_addr j k \<longleftrightarrow> i = k"
  using unat_ring_addr [of j i] unat_ring_addr [of j k] mod_ring_eq [of i "unat (jn_size_blocks j)" k "unat (jn_head j)"]
  by (auto simp: ring_pos_def)

context sector_store
begin

lemma put_blocks_ok:
  assumes "put_blocks wr bs (j, d) = (Inr (), j', d')" "journal_ok j" "length bs \<le> unat (jn_size_blocks j)"
    "\<forall>b \<in> set bs. length b = block_size"
  shows "(\<forall>k < length bs. rd (ring_addr j k) d' = Inr (bs ! k))
    \<and> (\<forall>a. a \<notin> ring_addr j ` {..<length bs} \<longrightarrow> rd a d' = rd a d)
    \<and> j' = (advance_head ^^ length bs) j"
  using assms
proof (induction bs arbitrary: j d)
  case (Cons b bs)
  obtain d1 where w: "wr (jn_start_lba j + jn_head j) b d = (Inr (), d1)"
    "put_blocks wr bs (advance_head j, d1) = (Inr (), j', d')"
    using Cons.prems(1) by (auto simp: put_block_def sbind_Inr_iff split: prod.splits sum.splits)
  note ok = Cons.prems(2)
  have w1: "wr (ring_addr j 0) b d = (Inr (), d1)" using w(1) ring_addr_0 [OF ok] by simp
  have IH: "(\<forall>k < length bs. rd (ring_addr j (Suc k)) d' = Inr (bs ! k))
      \<and> (\<forall>a. a \<notin> (\<lambda>k. ring_addr j (Suc k)) ` {..<length bs} \<longrightarrow> rd a d' = rd a d1)
      \<and> j' = (advance_head ^^ length bs) (advance_head j)"
    using Cons.IH [OF w(2) advance_head_ok [OF ok]] Cons.prems(3,4) by (simp add: ring_addr_advance [OF ok])
  have fresh: "ring_addr j 0 \<notin> (\<lambda>k. ring_addr j (Suc k)) ` {..<length bs}"
  proof
    assume "ring_addr j 0 \<in> (\<lambda>k. ring_addr j (Suc k)) ` {..<length bs}"
    then obtain k where "k < length bs" "ring_addr j 0 = ring_addr j (Suc k)" by auto
    with ring_addr_inj [OF ok, of 0 "Suc k"] Cons.prems(3) show False by simp
  qed
  have "rd (ring_addr j 0) d' = Inr b" using IH fresh wr_same [OF _ w1] Cons.prems(4) by simp
  then have same: "\<forall>k < Suc (length bs). rd (ring_addr j k) d' = Inr ((b # bs) ! k)"
    using IH by (simp add: All_less_Suc2)
  have set: "ring_addr j ` {..<Suc (length bs)} = insert (ring_addr j 0) ((\<lambda>k. ring_addr j (Suc k)) ` {..<length bs})"
    unfolding lessThan_Suc_eq_insert_0 by (simp add: image_image)
  have "rd a d' = rd a d" if "a \<notin> ring_addr j ` {..<Suc (length bs)}" for a
    using that IH wr_other [OF w1, of a] unfolding set by simp
  with same IH show ?case by (simp add: funpow_swap1)
qed simp

lemma install_ok:
  assumes "install wr ops d = (Inr (), d')" "\<forall>lba b. WriteBlock lba b \<in> set ops \<longrightarrow> length b = block_size"
  shows "rd a d' = (case map_of (rev (writes ops)) a of Some b \<Rightarrow> Inr b | None \<Rightarrow> rd a d)"
  using assms
proof (induction ops arbitrary: d rule: writes.induct)
  case (2 lba b ops)
  then obtain d1 where w: "wr lba b d = (Inr (), d1)" "install wr ops d1 = (Inr (), d')" by (auto simp: sbind_Inr_iff)
  from 2 w(2) have "rd a d' = (case map_of (rev (writes ops)) a of Some b \<Rightarrow> Inr b | None \<Rightarrow> rd a d1)" by simp
  moreover have "rd a d1 = (if a = lba then Inr b else rd a d)"
    using wr_same [OF _ w(1)] wr_other [OF w(1), of a] 2(3) by simp
  ultimately show ?case by (simp add: map_add_def split: option.split)
qed simp_all

end

section \<open>Descriptors\<close>

lemma collect_writes:
  assumes "ds_num_entries desc = of_nat n" "n \<le> 509" "ds_target_lbas desc = ls @ replicate (509 - n) 0" "length ls = n"
  shows "collect ops desc blks =
    (let ws = take (509 - n) (writes ops) in
     (desc\<lparr>ds_num_entries := of_nat (n + length ws),
           ds_target_lbas := ls @ map fst ws @ replicate (509 - n - length ws) 0\<rparr>, blks @ map snd ws))"
  using assms
proof (induction ops desc blks arbitrary: n ls rule: collect.induct)
  case (1 desc blks)
  then show ?case by simp
next
  case (2 lba data ops desc blks)
  have num: "unat (ds_num_entries desc) = n" using 2(2,3) by (simp add: unat_of_nat take_bit_nat_eq_self)
  show ?case
  proof (cases "n < 509")
    case True
    let ?d = "desc\<lparr>ds_target_lbas := (ds_target_lbas desc)[unat (ds_num_entries desc) := lba],
      ds_num_entries := ds_num_entries desc + 1\<rparr>"
    obtain m where m: "509 - n = Suc m" using True by (cases "509 - n") auto
    then have m': "509 - Suc n = m" by simp
    have lt: "ds_num_entries desc < 509" using num True by (simp add: word_less_nat_alt)
    have "ds_target_lbas ?d = (ls @ [lba]) @ replicate (509 - Suc n) 0"
      using 2(4,5) num unfolding m' by (simp add: m list_update_append)
    moreover have "ds_num_entries ?d = of_nat (Suc n)" using 2(2) by simp
    ultimately have "collect ops ?d (blks @ [data]) = (let ws = take m (writes ops) in
        (?d\<lparr>ds_num_entries := of_nat (Suc n + length ws),
            ds_target_lbas := (ls @ [lba]) @ map fst ws @ replicate (m - length ws) 0\<rparr>, (blks @ [data]) @ map snd ws))"
      using 2(1) [OF lt, of "Suc n" "ls @ [lba]"] True 2(5) unfolding m' by simp
    then show ?thesis using lt by (simp add: m Let_def)
  next
    case False
    then have "\<not> ds_num_entries desc < 509" using num by (simp add: word_less_nat_alt)
    with False 2(2-5) show ?thesis by simp
  qed
next
  case (3 ino meta ops desc blks)
  then show ?case by simp
qed

definition tx_descriptor :: "transaction \<Rightarrow> (u64 \<times> bytes) list \<Rightarrow> descriptor_block" where
  "tx_descriptor tx ws = \<lparr>ds_magic = DESCRIPTOR_MAGIC, ds_tx_id = tx_id tx, ds_num_entries = of_nat (length ws),
     ds_target_lbas = map fst ws @ replicate (509 - length ws) 0\<rparr>"

lemma collect_tx:
  "collect (tx_operations tx) \<lparr>ds_magic = DESCRIPTOR_MAGIC, ds_tx_id = tx_id tx, ds_num_entries = 0,
     ds_target_lbas = replicate 509 0\<rparr> [] = (tx_descriptor tx (take 509 (writes (tx_operations tx))),
     map snd (take 509 (writes (tx_operations tx))))"
  by (subst collect_writes [where n = 0 and ls = "[]"]) (simp_all add: Let_def tx_descriptor_def)

lemma length_concat_le: "length (concat (map (to_le_bytes :: u64 \<Rightarrow> bytes) xs)) = 8 * length xs"
  by (induction xs) simp_all

lemma nth_lba:
  "i < length xs \<Longrightarrow> from_le_bytes (subslice (8 * i) 8 (concat (map to_le_bytes xs) @ ys)) = (xs ! i :: u64)"
proof (induction xs arbitrary: i)
  case (Cons x xs)
  then show ?case by (cases i) (simp_all add: subslice_def)
qed simp

definition desc_lba :: "bytes \<Rightarrow> nat \<Rightarrow> u64" where
  "desc_lba db i = from_le_bytes (subslice (16 + 8 * i) 8 db)"

lemma descriptor_read_back:
  assumes "length ws \<le> 509" "db = descriptor_bytes (tx_descriptor tx ws)"
  shows "length db = 4096" "from_le_bytes (subslice 0 4 db) = DESCRIPTOR_MAGIC" "from_le_bytes (subslice 4 8 db) = tx_id tx"
    "unat (from_le_bytes (subslice 12 4 db) :: u32) = length ws" "map (desc_lba db) [0..<length ws] = map fst ws"
proof -
  let ?xs = "map fst ws @ replicate (509 - length ws) 0"
  have db: "db = to_le_bytes DESCRIPTOR_MAGIC @ to_le_bytes (tx_id tx) @ to_le_bytes (of_nat (length ws) :: u32)
      @ concat (map to_le_bytes ?xs) @ replicate 8 0"
    by (simp only: assms(2) descriptor_bytes_def tx_descriptor_def descriptor_block.simps)
  show "length db = 4096" using assms(1) length_concat_le [of ?xs] by (simp only: db length_append) simp
  show "from_le_bytes (subslice 0 4 db) = DESCRIPTOR_MAGIC" "from_le_bytes (subslice 4 8 db) = tx_id tx"
    unfolding db by (simp_all add: subslice_def)
  have "from_le_bytes (subslice 12 4 db) = (of_nat (length ws) :: u32)" unfolding db by (simp add: subslice_def)
  then show "unat (from_le_bytes (subslice 12 4 db) :: u32) = length ws"
    using assms(1) by (simp add: unat_of_nat take_bit_nat_eq_self)
  have tail: "drop 16 db = concat (map to_le_bytes ?xs) @ replicate 8 0" unfolding db by (simp del: map_append)
  have "desc_lba db i = fst (ws ! i)" if "i < length ws" for i
  proof -
    have "subslice (16 + 8 * i) 8 db = subslice (8 * i) 8 (drop 16 db)" by (simp add: subslice_def add.commute)
    with nth_lba [of i ?xs "replicate 8 0"] that show ?thesis
      unfolding desc_lba_def tail by (simp add: nth_append)
  qed
  then show "map (desc_lba db) [0..<length ws] = map fst ws" by (intro nth_equalityI) simp_all
qed

section \<open>Commit\<close>

text \<open>A reference reader of the journal, starting at the head of \<open>j\<close>.\<close>

fun read_ring :: "(u64 \<Rightarrow> 'd \<Rightarrow> string + bytes) \<Rightarrow> journal \<Rightarrow> nat list \<Rightarrow> 'd \<Rightarrow> bytes list option" where
  "read_ring rd j [] d = Some []"
| "read_ring rd j (k # ks) d = (case rd (ring_addr j k) d of Inl _ \<Rightarrow> None
     | Inr b \<Rightarrow> map_option ((#) b) (read_ring rd j ks d))"

definition recover :: "(u64 \<Rightarrow> 'd \<Rightarrow> string + bytes) \<Rightarrow> journal \<Rightarrow> 'd \<Rightarrow> (u64 \<times> (u64 \<times> bytes) list) option" where
  "recover rd j d =
     (case rd (ring_addr j 0) d of
        Inl _ \<Rightarrow> None
      | Inr db \<Rightarrow>
          if from_le_bytes (subslice 0 4 db) \<noteq> DESCRIPTOR_MAGIC then None
          else let txid = from_le_bytes (subslice 4 8 db); n = unat (from_le_bytes (subslice 12 4 db) :: u32) in
            case (read_ring rd j [1..<n + 1] d, rd (ring_addr j (n + 1)) d) of
              (Some blks, Inr cb) \<Rightarrow>
                if cb = commit_block txid then Some (txid, zip (map (desc_lba db) [0..<n]) blks) else None
            | _ \<Rightarrow> None)"

lemma read_ring_nth:
  "\<forall>i < length ks. rd (ring_addr j (ks ! i)) d = Inr (bs ! i) \<Longrightarrow> length bs = length ks \<Longrightarrow> read_ring rd j ks d = Some bs"
proof (induction ks arbitrary: bs)
  case (Cons k ks)
  then obtain b bs' where bs: "bs = b # bs'" by (cases bs) auto
  with Cons.prems have "rd (ring_addr j k) d = Inr b" "\<forall>i < length ks. rd (ring_addr j (ks ! i)) d = Inr (bs' ! i)"
    by (simp_all add: All_less_Suc2)
  with Cons.IH [of bs'] Cons.prems(2) bs show ?case by simp
qed simp

lemma put_blocks_append:
  "put_blocks wr (xs @ ys) s = sbind (put_blocks wr xs s) (\<lambda>_ s. put_blocks wr ys s)"
proof (induction xs arbitrary: s)
  case (Cons x xs)
  obtain r t where "put_block wr x s = (r, t)" by (cases "put_block wr x s")
  with Cons show ?case by (cases r) simp_all
qed simp

lemma commit_blocks:
  assumes "journal_commit wr tx (j, d) = (Inr (), j', d')" "tx_operations tx \<noteq> []" "ws = take 509 (writes (tx_operations tx))"
  shows "\<exists>j1. put_blocks wr (descriptor_bytes (tx_descriptor tx ws) # map snd ws @ [commit_block (tx_id tx)]) (j, d) = (Inr (), j1, d')
    \<and> j' = j1\<lparr>jn_uncheckpointed := jn_uncheckpointed j1 @ [tx]\<rparr>"
  using assms by (auto simp: journal_commit_def collect_tx sbind_Inr_iff put_blocks_append)

text \<open>
  C0: a committed transaction can be redone. On a device that stores blocks of 4096 bytes a commit
  that reports success leaves a descriptor, the blocks and a commit record in the ring from which a
  reader recovers the identifier and the first 509 block writes of the transaction, in order and with
  their targets, and it changes nothing outside the ring: a crash before the checkpoint finds the
  old contents at every target.
\<close>

theorem journal_commit_durable:
  assumes "sector_store 4096 rd wr" "journal_ok j" "tx_operations tx \<noteq> []"
    "\<forall>lba b. WriteBlock lba b \<in> set (tx_operations tx) \<longrightarrow> length b = 4096"
    "ws = take 509 (writes (tx_operations tx))" "length ws + 2 \<le> unat (jn_size_blocks j)"
    "journal_commit wr tx (j, d) = (Inr (), j', d')"
  shows "recover rd j d' = Some (tx_id tx, ws)
    \<and> (\<forall>a. unat a < unat (jn_start_lba j) \<or> unat (jn_start_lba j) + unat (jn_size_blocks j) \<le> unat a \<longrightarrow> rd a d' = rd a d)
    \<and> jn_uncheckpointed j' = jn_uncheckpointed j @ [tx]"
proof -
  let ?db = "descriptor_bytes (tx_descriptor tx ws)" and ?cb = "commit_block (tx_id tx)"
  let ?bs = "?db # map snd ws @ [?cb]" and ?n = "length ws"
  obtain j1 where p: "put_blocks wr ?bs (j, d) = (Inr (), j1, d')"
    and j': "j' = j1\<lparr>jn_uncheckpointed := jn_uncheckpointed j1 @ [tx]\<rparr>"
    using commit_blocks [OF assms(7,3,5)] by blast
  have n: "?n \<le> 509" by (simp add: assms(5))
  note db = descriptor_read_back [OF n refl, of tx]
  have "\<forall>b \<in> set ?bs. length b = 4096"
    using db(1) assms(4,5) writes_lengths [of "tx_operations tx" 4096]
    by (auto simp: commit_block_def ascii_def dest: in_set_takeD)
  with sector_store.put_blocks_ok [OF assms(1) p assms(2)] assms(6)
  have ok: "\<forall>k < ?n + 2. rd (ring_addr j k) d' = Inr (?bs ! k)"
    "\<forall>a. a \<notin> ring_addr j ` {..<?n + 2} \<longrightarrow> rd a d' = rd a d" "j1 = (advance_head ^^ (?n + 2)) j" by simp_all
  have "rd (ring_addr j 0) d' = Inr ?db" using ok(1) [rule_format, of 0] by simp
  moreover have "rd (ring_addr j (?n + 1)) d' = Inr ?cb" using ok(1) [rule_format, of "?n + 1"] by (simp add: nth_append)
  moreover have "read_ring rd j [1..<?n + 1] d' = Some (map snd ws)"
  proof (rule read_ring_nth; (intro allI impI)?)
    fix i assume "i < length [1..<?n + 1]"
    then have i: "i < ?n" by (simp del: upt_Suc)
    then show "rd (ring_addr j ([1..<?n + 1] ! i)) d' = Inr (map snd ws ! i)"
      using ok(1) [rule_format, of "Suc i"] by (simp add: nth_append del: upt_Suc)
  qed (simp del: upt_Suc)
  ultimately have "recover rd j d' = Some (tx_id tx, ws)"
    using db by (simp add: recover_def Let_def zip_map_fst_snd)
  moreover have "rd a d' = rd a d" if "unat a < unat (jn_start_lba j) \<or> unat (jn_start_lba j) + unat (jn_size_blocks j) \<le> unat a" for a
  proof -
    have "a \<noteq> ring_addr j k" for k
      using unat_ring_addr [OF assms(2), of k] size_pos [OF assms(2)] that
      by (auto simp: ring_pos_def not_less [symmetric])
    with ok(2) show ?thesis by auto
  qed
  moreover have "jn_uncheckpointed ((advance_head ^^ m) j) = jn_uncheckpointed j" for m by (induction m) simp_all
  ultimately show ?thesis by (simp add: j' ok(3))
qed

text \<open>A device for the examples: an array of blocks.\<close>

definition array_read :: "u64 \<Rightarrow> (u64 \<Rightarrow> bytes) \<Rightarrow> string + bytes" where
  "array_read a d = Inr (d a)"

definition array_write :: "u64 \<Rightarrow> bytes \<Rightarrow> (u64 \<Rightarrow> bytes) \<Rightarrow> (string + unit) \<times> (u64 \<Rightarrow> bytes)" where
  "array_write a b d = (Inr (), d(a := b))"

lemma array_store: "sector_store n array_read array_write"
  by unfold_locales (auto simp: array_read_def array_write_def)

lemma array_put_blocks: "\<exists>j' d'. put_blocks array_write bs (j, d) = (Inr (), j', d')"
  by (induction bs arbitrary: j d) (auto simp: put_block_def array_write_def)

lemma array_commit: "\<exists>j' d'. journal_commit array_write tx (j, d) = (Inr (), j', d')"
proof (cases "tx_operations tx = []")
  case False
  let ?ws = "take 509 (writes (tx_operations tx))"
  obtain j' d' where "put_blocks array_write (descriptor_bytes (tx_descriptor tx ?ws) # map snd ?ws @ [commit_block (tx_id tx)]) (j, d)
      = (Inr (), j', d')" using array_put_blocks by blast
  with False show ?thesis by (auto simp: journal_commit_def collect_tx sbind_Inr_iff put_blocks_append)
qed (simp add: journal_commit_def)

theorem journal_commit_durable_witness:
  "\<exists>j' d'. journal_commit array_write \<lparr>tx_id = 1, tx_operations = [WriteBlock 7 (replicate 4096 5)]\<rparr>
      (journal_init 1000 1024, \<lambda>_. []) = (Inr (), j', d')
    \<and> recover array_read (journal_init 1000 1024) d' = Some (1, [(7, replicate 4096 5)])"
proof -
  let ?tx = "\<lparr>tx_id = 1, tx_operations = [WriteBlock 7 (replicate 4096 5)]\<rparr>"
  obtain j' d' where c: "journal_commit array_write ?tx (journal_init 1000 1024, \<lambda>_. []) = (Inr (), j', d')"
    using array_commit by blast
  have "journal_ok (journal_init 1000 1024)" by (simp add: journal_ok_def journal_init_def)
  from journal_commit_durable [OF array_store this _ _ refl _ c]
  have "recover array_read (journal_init 1000 1024) d' = Some (1, [(7, replicate 4096 5)])"
    by (simp add: journal_init_def)
  with c show ?thesis by blast
qed

section \<open>Checkpoint\<close>

text \<open>
  C0: a checkpoint that reports success installs the block writes of all committed transactions in
  the order of their commits: every block holds the last write to it, every other block is
  unchanged, and the journal is empty again.
\<close>

theorem journal_checkpoint_installs:
  assumes "sector_store 4096 rd wr" "checkpoint wr (j, d) = (Inr n, j', d')"
    "ops = concat (map tx_operations (jn_uncheckpointed j))"
    "\<forall>lba b. WriteBlock lba b \<in> set ops \<longrightarrow> length b = 4096"
  shows "(\<forall>a. rd a d' = (case map_of (rev (writes ops)) a of Some b \<Rightarrow> Inr b | None \<Rightarrow> rd a d))
    \<and> n = length (jn_uncheckpointed j) \<and> jn_uncheckpointed j' = []"
proof (cases "jn_uncheckpointed j = []")
  case True
  with assms(2,3) show ?thesis by (auto simp: checkpoint_def)
next
  case False
  with assms(2,3) have i: "install wr ops d = (Inr (), d')" "n = length (jn_uncheckpointed j)" "jn_uncheckpointed j' = []"
    by (auto simp: checkpoint_def Let_def split: prod.splits sum.splits)
  with sector_store.install_ok [OF assms(1) i(1) assms(4)] show ?thesis by simp
qed

text \<open>A write error during a checkpoint drops the transactions that are not yet installed.\<close>

lemma checkpoint_error_drops:
  "checkpoint wr (j, d) = (Inl e, j', d') \<Longrightarrow> jn_uncheckpointed j' = []"
  by (auto simp: checkpoint_def Let_def split: prod.splits sum.splits if_splits)

theorem journal_checkpoint_installs_witness:
  "\<exists>j' d'. checkpoint array_write ((journal_init 1000 1024)\<lparr>jn_uncheckpointed :=
      [\<lparr>tx_id = 1, tx_operations = [WriteBlock 7 (replicate 4096 5)]\<rparr>, \<lparr>tx_id = 2, tx_operations = [WriteBlock 7 (replicate 4096 6)]\<rparr>]\<rparr>,
      \<lambda>_. []) = (Inr 2, j', d') \<and> d' 7 = replicate 4096 6 \<and> d' 8 = []"
proof -
  let ?j = "(journal_init 1000 1024)\<lparr>jn_uncheckpointed := [\<lparr>tx_id = 1, tx_operations = [WriteBlock 7 (replicate 4096 5)]\<rparr>,
    \<lparr>tx_id = 2, tx_operations = [WriteBlock 7 (replicate 4096 6)]\<rparr>]\<rparr>"
  obtain j' d' where c: "checkpoint array_write (?j, \<lambda>_. []) = (Inr 2, j', d')"
    by (simp add: checkpoint_def array_write_def)
  from journal_checkpoint_installs [OF array_store c refl]
  have "array_read 7 d' = Inr (replicate 4096 6)" "array_read 8 d' = Inr []"
    by (simp_all add: array_read_def)
  with c show ?thesis by (auto simp: array_read_def)
qed

section \<open>Sector addresses\<close>

text \<open>
  The devices of the kernel count their addresses in sectors of 512 bytes, \<open>write_blocks\<close> of
  \<open>drivers/virtio_blk.rs\<close> writes a buffer sector by sector from the given address. The journal
  advances its address by one for every block of 4096 bytes, so that each block overwrites all but
  the first sector of the block before it.
\<close>

definition virtio_write_blocks :: "u64 \<Rightarrow> bytes \<Rightarrow> disk \<Rightarrow> (string + unit) \<times> disk" where
  "virtio_write_blocks sector buf d =
     write_run dev_write sector (map (\<lambda>i. subslice (i * 512) 512 buf) [0..<length buf div 512]) d"

lemma write_run_first:
  "write_run dev_write a (b # bs) d = (Inr (), d') \<Longrightarrow> length bs < 2 ^ 64 \<Longrightarrow> dk_sectors d' a = b"
proof -
  assume "write_run dev_write a (b # bs) d = (Inr (), d')" and len: "length bs < 2 ^ 64"
  then obtain t where t: "dev_write a b d = (Inr (), t)" "write_run dev_write (a + 1) bs t = (Inr (), d')"
    by (auto simp: sbind_Inr_iff)
  have "dk_sectors d' x = dk_sectors t x" if "x \<notin> run_addrs (a + 1) (length bs)" for x
    using t(2) that
  proof (induction bs arbitrary: a t)
    case (Cons c cs)
    then obtain u where u: "dev_write (a + 1) c t = (Inr (), u)" "write_run dev_write (a + 1 + 1) cs u = (Inr (), d')"
      by (auto simp: sbind_Inr_iff)
    from Cons.IH [OF u(2)] Cons.prems(2) u(1) show ?case by (auto simp: dev_write_ok)
  qed simp
  then have "dk_sectors d' a = dk_sectors t a" using run_addrs_head [of "length bs" a] len by blast
  with t(1) show ?thesis by (simp add: dev_write_ok)
qed

lemma put_block_Inr:
  "put_block wr b (j, d) = (Inr u, s') \<longleftrightarrow> (\<exists>d'. wr (jn_start_lba j + jn_head j) b d = (Inr (), d') \<and> s' = (advance_head j, d'))"
  by (auto simp: put_block_def split: prod.splits sum.splits)

lemma journal_blocks_overlap:
  assumes "put_blocks virtio_write_blocks [b1, b2] (j, d) = (Inr (), j', d')" "journal_ok j"
    "unat (jn_head j) + 1 < unat (jn_size_blocks j)" "length b2 = 4096"
  shows "dk_sectors d' (jn_start_lba j + jn_head j + 1) = take 512 b2"
proof -
  obtain d1 where w: "virtio_write_blocks (jn_start_lba j + jn_head (advance_head j)) b2 d1 = (Inr (), d')"
    using assms(1) by (auto simp: sbind_Inr_iff put_block_Inr)
  have "unat (jn_head (advance_head j)) = unat (jn_head j + 1)"
  proof -
    have "unat (jn_size_blocks j) < 2 ^ 64" using assms(2) by (simp add: journal_ok_def)
    with assms(3) show ?thesis by (simp add: advance_head_unat [OF assms(2)] unat_word_ariths)
  qed
  then have head: "jn_head (advance_head j) = jn_head j + 1" by (simp add: word_unat_eq_iff)
  have "[0..<8] = 0 # [1..<8 :: nat]" by (simp add: upt_conv_Cons)
  with w assms(4) have "write_run dev_write (jn_start_lba j + jn_head j + 1)
      (take 512 b2 # map (\<lambda>i. subslice (i * 512) 512 b2) [1..<8]) d1 = (Inr (), d')"
    by (simp add: virtio_write_blocks_def head subslice_def add.assoc del: write_run.simps upt_Suc)
  from write_run_first [OF this] show ?thesis by simp
qed

end
