(* ===== verification/Mem_Frame.thy ===== *)
theory Mem_Frame
  imports Smart_Prelude
begin

text \<open>
  The bitmap allocator of physical page frames (\<open>kernel/src/memory/frame.rs\<close>). A physical
  address is a natural number (physical addresses have at most 52 bits, so the \<open>u64\<close> sums of the
  source do not wrap); the bitmap is the list of \<open>u64\<close> words of the source, a set bit meaning
  free. The contract that the users of the allocator rely on is the locale \<open>frame_pool\<close>.
\<close>

unbundle bit_operations_syntax

section \<open>The allocator\<close>

definition FRAME_SIZE :: nat where
  "FRAME_SIZE = 4096"

text \<open>A boot memory region: its bounds, and whether its kind is \<open>Usable\<close>.\<close>

record memory_region =
  mr_start :: nat
  mr_end :: nat
  mr_usable :: bool

record frame_allocator =
  fa_bitmap :: "u64 list"
  fa_base_addr :: nat
  fa_total_frames :: nat
  fa_free_count :: nat

text \<open>\<open>align_down\<close> is \<open>x & !(FRAME_SIZE - 1)\<close>.\<close>

definition align_down :: "nat \<Rightarrow> nat" where
  "align_down x = x - x mod FRAME_SIZE"

definition mark_free :: "nat \<Rightarrow> u64 list \<times> nat \<Rightarrow> u64 list \<times> nat" where
  "mark_free addr = (\<lambda>(bitmap, free_count).
     let frame_idx = addr div FRAME_SIZE;
         wrd = frame_idx div 64;
         b = frame_idx mod 64
     in if wrd < length bitmap
        then (bitmap[wrd := bitmap ! wrd OR push_bit b 1], free_count + 1)
        else (bitmap, free_count))"

function mark_range :: "nat \<Rightarrow> nat \<Rightarrow> nat \<Rightarrow> u64 list \<times> nat \<Rightarrow> u64 list \<times> nat" where
  "mark_range reserved_end end_addr addr st =
     (if addr < end_addr
      then mark_range reserved_end end_addr (addr + FRAME_SIZE)
             (if reserved_end \<le> addr then mark_free addr st else st)
      else st)"
  by pat_completeness auto
termination
  by (relation "measure (\<lambda>(r, e, a, st). e - a)") (auto simp: FRAME_SIZE_def)

declare mark_range.simps [simp del]

definition mark_region :: "nat \<Rightarrow> memory_region \<Rightarrow> u64 list \<times> nat \<Rightarrow> u64 list \<times> nat" where
  "mark_region reserved_end region st =
     (if \<not> mr_usable region then st
      else
        (let start = align_down (mr_start region + FRAME_SIZE - 1);
             end_addr = align_down (mr_end region)
         in if end_addr \<le> start then st else mark_range reserved_end end_addr start st))"

definition frame_allocator_new :: "memory_region list \<Rightarrow> nat \<Rightarrow> frame_allocator" where
  "frame_allocator_new regions reserved_end =
     (let max_addr = fold (\<lambda>r m. max (mr_end r) m) regions 0;
          total_frames = max_addr div FRAME_SIZE;
          bitmap_words = (total_frames + 63) div 64;
          (bitmap, free_count) =
            fold (mark_region reserved_end) regions (replicate bitmap_words 0, 0)
      in \<lparr>fa_bitmap = bitmap, fa_base_addr = 0, fa_total_frames = total_frames,
          fa_free_count = free_count\<rparr>)"

definition trailing_zeros :: "u64 \<Rightarrow> nat" where
  "trailing_zeros w = (case List.find (bit w) [0..<64] of Some i \<Rightarrow> i | None \<Rightarrow> 64)"

text \<open>The scan of \<open>alloc_frame\<close>: the index of the word and the bit of the frame to hand out.\<close>

fun scan_bitmap :: "nat \<Rightarrow> nat \<Rightarrow> u64 list \<Rightarrow> (nat \<times> nat) option" where
  "scan_bitmap total_frames word_idx [] = None"
| "scan_bitmap total_frames word_idx (w # ws) =
     (if w = 0 then scan_bitmap total_frames (word_idx + 1) ws
      else
        (let b = trailing_zeros w; frame_idx = word_idx * 64 + b in
         if total_frames \<le> frame_idx then scan_bitmap total_frames (word_idx + 1) ws
         else Some (word_idx, b)))"

definition fa_alloc_frame :: "frame_allocator \<Rightarrow> nat option \<times> frame_allocator" where
  "fa_alloc_frame fa =
     (if fa_free_count fa = 0 then (None, fa)
      else
        (case scan_bitmap (fa_total_frames fa) 0 (fa_bitmap fa) of
           None \<Rightarrow> (None, fa)
         | Some (word_idx, b) \<Rightarrow>
             (Some (fa_base_addr fa + (word_idx * 64 + b) * FRAME_SIZE),
              fa\<lparr>fa_bitmap := (fa_bitmap fa)
                   [word_idx := fa_bitmap fa ! word_idx AND NOT (push_bit b 1)],
                 fa_free_count := fa_free_count fa - 1\<rparr>)))"

definition fa_dealloc_frame :: "nat \<Rightarrow> frame_allocator \<Rightarrow> frame_allocator" where
  "fa_dealloc_frame addr fa =
     (let frame_idx = (addr - fa_base_addr fa) div FRAME_SIZE;
          wrd = frame_idx div 64;
          b = frame_idx mod 64
      in if wrd < length (fa_bitmap fa) \<and> fa_bitmap fa ! wrd AND push_bit b 1 = 0
         then fa\<lparr>fa_bitmap := (fa_bitmap fa)[wrd := fa_bitmap fa ! wrd OR push_bit b 1],
                 fa_free_count := fa_free_count fa + 1\<rparr>
         else fa)"

section \<open>The global allocator\<close>

definition alloc_frame :: "frame_allocator option \<Rightarrow> nat option \<times> frame_allocator option" where
  "alloc_frame g =
     (case g of
        None \<Rightarrow> (None, None)
      | Some fa \<Rightarrow> (case fa_alloc_frame fa of (r, fa) \<Rightarrow> (r, Some fa)))"

definition dealloc_frame :: "nat \<Rightarrow> frame_allocator option \<Rightarrow> frame_allocator option" where
  "dealloc_frame addr g = map_option (fa_dealloc_frame addr) g"

definition frame_stats :: "frame_allocator option \<Rightarrow> nat \<times> nat" where
  "frame_stats g =
     (case g of Some fa \<Rightarrow> (fa_free_count fa, fa_total_frames fa) | None \<Rightarrow> (0, 0))"

section \<open>The set of free frames\<close>

definition free_idx :: "u64 list \<Rightarrow> nat set" where
  "free_idx bitmap = {i. i < 64 * length bitmap \<and> bit (bitmap ! (i div 64)) (i mod 64)}"

definition frame_inv :: "frame_allocator \<Rightarrow> bool" where
  "frame_inv fa \<longleftrightarrow> fa_base_addr fa = 0
     \<and> length (fa_bitmap fa) = (fa_total_frames fa + 63) div 64
     \<and> free_idx (fa_bitmap fa) \<subseteq> {..<fa_total_frames fa}
     \<and> fa_free_count fa = card (free_idx (fa_bitmap fa))"

lemma finite_free_idx [simp]: "finite (free_idx bm)"
  by (rule finite_subset [of _ "{..<64 * length bm}"]) (auto simp: free_idx_def)

lemma free_idx_set:
  assumes "i < 64 * length bm"
  shows "free_idx (bm[i div 64 := bm ! (i div 64) OR push_bit (i mod 64) 1]) = insert i (free_idx bm)"
proof -
  have "i div 64 < length bm" using assms by (simp add: div_less_iff_less_mult mult.commute)
  moreover have "j = i" if "j div 64 = i div 64" "j mod 64 = i mod 64" for j
    using that by (metis div_mult_mod_eq)
  ultimately show ?thesis
    using assms by (auto simp: free_idx_def nth_list_update bit_simps split: if_splits)
qed

lemma free_idx_clear:
  assumes "i < 64 * length bm"
  shows "free_idx (bm[i div 64 := bm ! (i div 64) AND NOT (push_bit (i mod 64) 1)]) = free_idx bm - {i}"
proof -
  have "i div 64 < length bm" using assms by (simp add: div_less_iff_less_mult mult.commute)
  moreover have "j = i" if "j div 64 = i div 64" "j mod 64 = i mod 64" for j
    using that by (metis div_mult_mod_eq)
  ultimately show ?thesis
    using assms by (auto simp: free_idx_def nth_list_update bit_simps split: if_splits)
qed

lemma trailing_zeros_bit:
  assumes "w \<noteq> 0"
  shows "trailing_zeros w < 64 \<and> bit w (trailing_zeros w) \<and> (\<forall>j<trailing_zeros w. \<not> bit w j)"
proof -
  obtain n where "bit w n"
    using assms by (auto simp: bit_eq_iff)
  moreover from bit_imp_le_length [OF this] have "n < 64" by simp
  ultimately have n: "\<exists>n<64. bit w n" by blast
  from n obtain i where i: "List.find (bit w) [0..<64] = Some i"
    by (cases "List.find (bit w) [0..<64]") (auto simp: find_None_iff)
  then have "trailing_zeros w = i" by (simp add: trailing_zeros_def)
  with i show ?thesis by (auto simp: find_Some_iff)
qed

definition skipped :: "nat \<Rightarrow> nat \<Rightarrow> u64 \<Rightarrow> bool" where
  "skipped total_frames word_idx w \<longleftrightarrow> w = 0 \<or> total_frames \<le> word_idx * 64 + trailing_zeros w"

lemma scan_bitmap_None:
  "scan_bitmap n k ws = None \<longleftrightarrow> (\<forall>j<length ws. skipped n (k + j) (ws ! j))"
  by (induction n k ws rule: scan_bitmap.induct)
    (auto simp: skipped_def Let_def less_Suc_eq_0_disj split: if_splits)

lemma scan_bitmap_Some:
  assumes "scan_bitmap n k ws = Some (wi, b)"
  shows "\<exists>j<length ws. wi = k + j \<and> ws ! j \<noteq> 0 \<and> b = trailing_zeros (ws ! j)
    \<and> wi * 64 + b < n \<and> (\<forall>i<j. skipped n (k + i) (ws ! i))"
  using assms
proof (induction n k ws rule: scan_bitmap.induct)
  case (1 n k)
  then show ?case by simp
next
  case (2 n k w ws)
  show ?case
  proof (cases "skipped n k w")
    case True
    with "2.prems" have rec: "scan_bitmap n (k + 1) ws = Some (wi, b)"
      by (auto simp: skipped_def Let_def split: if_splits)
    have "\<exists>j<length ws. wi = k + 1 + j \<and> ws ! j \<noteq> 0 \<and> b = trailing_zeros (ws ! j)
        \<and> wi * 64 + b < n \<and> (\<forall>i<j. skipped n (k + 1 + i) (ws ! i))"
    proof (cases "w = 0")
      case True
      then show ?thesis using "2.IH"(1) rec by blast
    next
      case False
      with \<open>skipped n k w\<close> have "n \<le> k * 64 + trailing_zeros w" by (simp add: skipped_def)
      then show ?thesis using "2.IH"(2) [OF False refl refl _ rec] by blast
    qed
    then obtain j where "j < length ws" "wi = k + 1 + j" "ws ! j \<noteq> 0"
        "b = trailing_zeros (ws ! j)" "wi * 64 + b < n" "\<forall>i<j. skipped n (k + 1 + i) (ws ! i)"
      by blast
    with True show ?thesis by (intro exI [of _ "Suc j"]) (auto simp: less_Suc_eq_0_disj)
  next
    case False
    with "2.prems" show ?thesis
      by (intro exI [of _ 0]) (auto simp: skipped_def Let_def split: if_splits)
  qed
qed

lemma skipped_no_free:
  assumes "free_idx bm \<subseteq> {..<n}" "j < length bm" "skipped n j (bm ! j)"
  shows "bm ! j = 0"
proof (rule ccontr)
  assume nz: "bm ! j \<noteq> 0"
  have tz: "trailing_zeros (bm ! j) < 64" "bit (bm ! j) (trailing_zeros (bm ! j))"
    using trailing_zeros_bit [OF nz] by auto
  then have "j * 64 + trailing_zeros (bm ! j) \<in> free_idx bm"
    using assms(2) by (simp add: free_idx_def)
  with assms nz show False by (auto simp: skipped_def)
qed

lemma fa_alloc_None:
  assumes "frame_inv fa" "fa_alloc_frame fa = (None, fa')"
  shows "fa' = fa \<and> free_idx (fa_bitmap fa) = {}"
proof (cases "fa_free_count fa = 0")
  case True
  then show ?thesis using assms by (simp add: fa_alloc_frame_def frame_inv_def)
next
  case False
  with assms(2) have "scan_bitmap (fa_total_frames fa) 0 (fa_bitmap fa) = None" "fa' = fa"
    by (auto simp: fa_alloc_frame_def split: option.splits)
  moreover from this have "fa_bitmap fa ! j = 0" if "j < length (fa_bitmap fa)" for j
    using assms(1) that skipped_no_free [of "fa_bitmap fa" "fa_total_frames fa" j]
    by (auto simp: scan_bitmap_None frame_inv_def)
  ultimately show ?thesis by (auto simp: free_idx_def div_less_iff_less_mult mult.commute)
qed

lemma fa_alloc_Some:
  assumes inv: "frame_inv fa" and run: "fa_alloc_frame fa = (Some a, fa')"
  shows "\<exists>i. a = i * FRAME_SIZE \<and> i \<in> free_idx (fa_bitmap fa)
    \<and> (\<forall>j\<in>free_idx (fa_bitmap fa). i \<le> j)
    \<and> free_idx (fa_bitmap fa') = free_idx (fa_bitmap fa) - {i}
    \<and> frame_inv fa' \<and> fa_total_frames fa' = fa_total_frames fa"
proof -
  let ?bm = "fa_bitmap fa" let ?n = "fa_total_frames fa"
  obtain wi b where scan: "scan_bitmap ?n 0 ?bm = Some (wi, b)"
    and a: "a = (wi * 64 + b) * FRAME_SIZE"
    and fa': "fa' = fa\<lparr>fa_bitmap := ?bm[wi := ?bm ! wi AND NOT (push_bit b 1)],
      fa_free_count := fa_free_count fa - 1\<rparr>"
    using run inv by (auto simp: fa_alloc_frame_def frame_inv_def split: if_splits option.splits)
  from scan_bitmap_Some [OF scan] have wi: "wi < length ?bm" "?bm ! wi \<noteq> 0"
      "b = trailing_zeros (?bm ! wi)" "wi * 64 + b < ?n" "\<forall>i<wi. skipped ?n i (?bm ! i)"
    by auto
  have b: "b < 64" "bit (?bm ! wi) b" "\<forall>j<b. \<not> bit (?bm ! wi) j"
    using trailing_zeros_bit [OF wi(2)] wi(3) by auto
  let ?i = "wi * 64 + b"
  have i: "?i div 64 = wi" "?i mod 64 = b" "?i < 64 * length ?bm"
    using b(1) wi(1) by auto
  have mem: "?i \<in> free_idx ?bm" using b i by (simp add: free_idx_def)
  have "?i \<le> j" if j: "j \<in> free_idx ?bm" for j
  proof -
    have "?bm ! k = 0" if "k < wi" for k
      using skipped_no_free [of ?bm ?n k] inv wi(1,5) that by (simp add: frame_inv_def)
    then have "\<not> j div 64 < wi" "j div 64 = wi \<Longrightarrow> \<not> j mod 64 < b"
      using j b(3) by (auto simp: free_idx_def)
    then show ?thesis
      using b(1) div_mult_mod_eq [of j 64] by (cases "j div 64 = wi") linarith+
  qed
  moreover have "free_idx (fa_bitmap fa') = free_idx ?bm - {?i}"
    using free_idx_clear [OF i(3)] i by (simp add: fa')
  moreover from this have "frame_inv fa'"
    using inv mem by (auto simp: frame_inv_def fa' card_Diff_singleton)
  ultimately show ?thesis using a mem by (auto simp: fa')
qed

lemma fa_dealloc:
  assumes inv: "frame_inv fa" and i: "i < fa_total_frames fa"
  shows "free_idx (fa_bitmap (fa_dealloc_frame (i * FRAME_SIZE) fa)) = insert i (free_idx (fa_bitmap fa))
    \<and> frame_inv (fa_dealloc_frame (i * FRAME_SIZE) fa)
    \<and> fa_total_frames (fa_dealloc_frame (i * FRAME_SIZE) fa) = fa_total_frames fa"
proof -
  let ?bm = "fa_bitmap fa"
  have len: "i < 64 * length ?bm" "i div 64 < length ?bm"
    using inv i by (simp_all add: frame_inv_def div_less_iff_less_mult mult.commute)
  have idx: "(i * FRAME_SIZE - fa_base_addr fa) div FRAME_SIZE = i"
    using inv by (simp add: frame_inv_def FRAME_SIZE_def)
  have used: "(?bm ! (i div 64) AND push_bit (i mod 64) 1 = 0) = (i \<notin> free_idx ?bm)"
  proof -
    have "(w AND push_bit k 1 = 0) = (\<not> bit w k)" for w :: u64 and k
      by (simp add: and_exp_eq_0_iff_not_bit push_bit_of_1)
    then show ?thesis using len by (simp add: free_idx_def)
  qed
  have eq: "fa_dealloc_frame (i * FRAME_SIZE) fa = (if i \<notin> free_idx ?bm
      then fa\<lparr>fa_bitmap := ?bm[i div 64 := ?bm ! (i div 64) OR push_bit (i mod 64) 1],
              fa_free_count := fa_free_count fa + 1\<rparr>
      else fa)"
    unfolding fa_dealloc_frame_def Let_def idx used using len(2) by simp
  show ?thesis
    using inv i free_idx_set [OF len(1)] unfolding eq by (auto simp: frame_inv_def insert_absorb)
qed

section \<open>Boot-time marking\<close>

text \<open>The frames that the loop over one address range marks.\<close>

definition range_frames :: "nat \<Rightarrow> nat \<Rightarrow> nat \<Rightarrow> nat set" where
  "range_frames reserved_end start_addr end_addr =
     {i. start_addr \<le> i * FRAME_SIZE \<and> i * FRAME_SIZE < end_addr \<and> reserved_end \<le> i * FRAME_SIZE}"

definition region_frames :: "nat \<Rightarrow> memory_region \<Rightarrow> nat set" where
  "region_frames reserved_end r =
     (if mr_usable r
      then range_frames reserved_end (align_down (mr_start r + FRAME_SIZE - 1)) (align_down (mr_end r))
      else {})"

lemma range_frames_step:
  assumes "a < e" "FRAME_SIZE dvd a"
  shows "range_frames r a e =
    (if r \<le> a then {a div FRAME_SIZE} else {}) \<union> range_frames r (a + FRAME_SIZE) e
    \<and> a div FRAME_SIZE \<notin> range_frames r (a + FRAME_SIZE) e"
proof -
  obtain k where k: "a = FRAME_SIZE * k" using assms(2) by blast
  have "(a \<le> i * FRAME_SIZE) = (i = k \<or> a + FRAME_SIZE \<le> i * FRAME_SIZE)" for i
    by (auto simp: k FRAME_SIZE_def)
  moreover have "k * FRAME_SIZE = a" "a div FRAME_SIZE = k" by (simp_all add: k FRAME_SIZE_def)
  ultimately show ?thesis
    using assms(1) by (auto simp: range_frames_def FRAME_SIZE_def)
qed

lemma mark_range_free:
  assumes "FRAME_SIZE dvd a" "range_frames r a e \<subseteq> {..<64 * length bm}"
    "free_idx bm \<inter> range_frames r a e = {}" "fc = card (free_idx bm)"
    "mark_range r e a (bm, fc) = (bm', fc')"
  shows "length bm' = length bm \<and> free_idx bm' = free_idx bm \<union> range_frames r a e
    \<and> fc' = card (free_idx bm')"
  using assms
proof (induction r e a "(bm, fc)" arbitrary: bm fc rule: mark_range.induct)
  case (1 r e a)
  show ?case
  proof (cases "a < e")
    case False
    then have "range_frames r a e = {}" by (auto simp: range_frames_def)
    moreover have "bm' = bm" "fc' = fc"
      using False "1.prems"(5) by (simp_all add: mark_range.simps [of r e a])
    ultimately show ?thesis using "1.prems"(4) by simp
  next
    case True
    let ?i = "a div FRAME_SIZE"
    note step = range_frames_step [OF True "1.prems"(1), of r]
    have run: "mark_range r e (a + FRAME_SIZE) (if r \<le> a then mark_free a (bm, fc) else (bm, fc)) = (bm', fc')"
      using "1.prems"(5) True by (simp add: mark_range.simps [of r e a])
    have dvd: "FRAME_SIZE dvd a + FRAME_SIZE" using "1.prems"(1) by simp
    show ?thesis
    proof (cases "r \<le> a")
      case False
      then have same: "range_frames r a e = range_frames r (a + FRAME_SIZE) e" using step by simp
      have mk: "(if r \<le> a then mark_free a (bm, fc) else (bm, fc)) = (bm, fc)" using False by simp
      show ?thesis
        using "1.prems"(2,3) run unfolding same mk
        by (intro "1.hyps" [OF True mk dvd _ _ "1.prems"(4)])
    next
      case res: True
      then have fr: "range_frames r a e = insert ?i (range_frames r (a + FRAME_SIZE) e)"
        using step by simp
      then have i: "?i < 64 * length bm" "?i \<notin> free_idx bm" using "1.prems"(2,3) by auto
      let ?bm = "bm[?i div 64 := bm ! (?i div 64) OR push_bit (?i mod 64) 1]"
      have word: "?i div 64 < length bm" using i(1) by linarith
      have mf: "mark_free a (bm, fc) = (?bm, fc + 1)"
        using word unfolding mark_free_def Let_def by (simp only: prod.case if_True)
      have free: "free_idx ?bm = insert ?i (free_idx bm)" by (rule free_idx_set [OF i(1)])
      have "length bm' = length ?bm \<and> free_idx bm' = free_idx ?bm \<union> range_frames r (a + FRAME_SIZE) e
          \<and> fc' = card (free_idx bm')"
      proof (rule "1.hyps" [OF True _ dvd, of ?bm "fc + 1"])
        show "(if r \<le> a then mark_free a (bm, fc) else (bm, fc)) = (?bm, fc + 1)"
          using res by (simp only: mf if_True)
        show "range_frames r (a + FRAME_SIZE) e \<subseteq> {..<64 * length ?bm}"
          using "1.prems"(2) unfolding fr by simp
        show "free_idx ?bm \<inter> range_frames r (a + FRAME_SIZE) e = {}"
          using "1.prems"(3) step unfolding fr free by blast
        show "fc + 1 = card (free_idx ?bm)" using "1.prems"(4) i(2) unfolding free by simp
        show "mark_range r e (a + FRAME_SIZE) (?bm, fc + 1) = (bm', fc')"
          using run res by (simp only: mf if_True)
      qed
      then show ?thesis unfolding free fr by simp
    qed
  qed
qed

lemma align_down_mult: "align_down x = FRAME_SIZE * (x div FRAME_SIZE)"
  by (simp add: align_down_def minus_mod_eq_mult_div)

lemma mark_region_free:
  assumes "region_frames re r \<subseteq> {..<64 * length bm}" "free_idx bm \<inter> region_frames re r = {}"
    "fc = card (free_idx bm)" "mark_region re r (bm, fc) = (bm', fc')"
  shows "length bm' = length bm \<and> free_idx bm' = free_idx bm \<union> region_frames re r
    \<and> fc' = card (free_idx bm')"
proof (cases "mr_usable r \<and> align_down (mr_start r + FRAME_SIZE - 1) < align_down (mr_end r)")
  case True
  then have run: "mark_range re (align_down (mr_end r)) (align_down (mr_start r + FRAME_SIZE - 1)) (bm, fc)
      = (bm', fc')"
    using assms(4) by (simp add: mark_region_def Let_def)
  have dvd: "FRAME_SIZE dvd align_down x" for x by (simp add: align_down_mult)
  from mark_range_free [OF dvd _ _ assms(3) run] assms(1,2) True show ?thesis
    by (simp add: region_frames_def)
next
  case False
  then have "region_frames re r = {}" by (auto simp: region_frames_def range_frames_def)
  with False show ?thesis using assms(3,4) by (auto simp: mark_region_def Let_def split: if_splits)
qed

lemma mark_regions_free:
  assumes "\<forall>r\<in>set rs. region_frames re r \<subseteq> {..<64 * length bm} \<and> free_idx bm \<inter> region_frames re r = {}"
    "sorted_wrt (\<lambda>r r'. region_frames re r \<inter> region_frames re r' = {}) rs"
    "fc = card (free_idx bm)" "fold (mark_region re) rs (bm, fc) = (bm', fc')"
  shows "length bm' = length bm \<and> free_idx bm' = free_idx bm \<union> (\<Union>r\<in>set rs. region_frames re r)
    \<and> fc' = card (free_idx bm')"
  using assms
proof (induction rs arbitrary: bm fc)
  case Nil
  then show ?case by auto
next
  case (Cons r rs)
  obtain bm1 fc1 where m: "mark_region re r (bm, fc) = (bm1, fc1)" by fastforce
  from mark_region_free [OF _ _ Cons.prems(3) m] Cons.prems(1)
  have bm1: "length bm1 = length bm" "free_idx bm1 = free_idx bm \<union> region_frames re r"
      "fc1 = card (free_idx bm1)"
    by auto
  have "\<forall>r\<in>set rs. region_frames re r \<subseteq> {..<64 * length bm1} \<and> free_idx bm1 \<inter> region_frames re r = {}"
    using Cons.prems(1,2) bm1 by auto
  from Cons.IH [OF this _ bm1(3)] Cons.prems(2,4) m bm1 show ?case by auto
qed

lemma max_end_ge: "m \<le> fold (\<lambda>r m. max (mr_end r) m) rs m
    \<and> (\<forall>r\<in>set rs. mr_end r \<le> fold (\<lambda>r m. max (mr_end r) m) rs m)"
proof (induction rs arbitrary: m)
  case (Cons r rs)
  from Cons [of "max (mr_end r) m"] show ?case by auto
qed simp

lemma region_frames_bound:
  assumes "i \<in> region_frames re r" "mr_end r \<le> m"
  shows "i < m div FRAME_SIZE"
proof -
  have "i * FRAME_SIZE < FRAME_SIZE * (mr_end r div FRAME_SIZE)"
    using assms(1) by (auto simp: region_frames_def range_frames_def align_down_mult split: if_splits)
  then have "i < mr_end r div FRAME_SIZE" by (simp add: FRAME_SIZE_def)
  also have "\<dots> \<le> m div FRAME_SIZE" using assms(2) by (rule div_le_mono)
  finally show ?thesis .
qed

lemma free_idx_zero [simp]: "free_idx (replicate n 0) = {}"
  by (auto simp: free_idx_def div_less_iff_less_mult mult.commute)

lemma frame_allocator_new_inv:
  assumes "sorted_wrt (\<lambda>r r'. region_frames re r \<inter> region_frames re r' = {}) rs"
  shows "frame_inv (frame_allocator_new rs re)
    \<and> free_idx (fa_bitmap (frame_allocator_new rs re)) = (\<Union>r\<in>set rs. region_frames re r)"
proof -
  let ?n = "fold (\<lambda>r m. max (mr_end r) m) rs 0 div FRAME_SIZE"
  let ?w = "(?n + 63) div 64"
  obtain bm fc where f: "fold (mark_region re) rs (replicate ?w 0, 0) = (bm, fc)" by fastforce
  have bound: "region_frames re r \<subseteq> {..<?n}" if "r \<in> set rs" for r
    using that max_end_ge [of 0 rs] region_frames_bound by blast
  moreover have "?n \<le> 64 * ?w" by simp
  ultimately have "\<forall>r\<in>set rs. region_frames re r \<subseteq> {..<64 * length (replicate ?w (0 :: u64))}
      \<and> free_idx (replicate ?w 0) \<inter> region_frames re r = {}"
    by (fastforce intro: less_le_trans)
  from mark_regions_free [OF this assms _ f] have
    "length bm = ?w" "free_idx bm = (\<Union>r\<in>set rs. region_frames re r)" "fc = card (free_idx bm)"
    by simp_all
  moreover have "frame_allocator_new rs re =
      \<lparr>fa_bitmap = bm, fa_base_addr = 0, fa_total_frames = ?n, fa_free_count = fc\<rparr>"
    unfolding frame_allocator_new_def Let_def f by simp
  ultimately show ?thesis using bound by (auto simp: frame_inv_def)
qed

section \<open>The pool contract\<close>

locale frame_pool =
  fixes inv :: "'s \<Rightarrow> bool" and free_frames :: "'s \<Rightarrow> nat set" and tracked :: "'s \<Rightarrow> nat set"
    and alloc :: "'s \<Rightarrow> nat option \<times> 's" and dealloc :: "nat \<Rightarrow> 's \<Rightarrow> 's"
  assumes free_tracked: "inv s \<Longrightarrow> free_frames s \<subseteq> tracked s"
    and finite_free: "inv s \<Longrightarrow> finite (free_frames s)"
    and alloc_Some: "inv s \<Longrightarrow> alloc s = (Some a, s') \<Longrightarrow>
      inv s' \<and> a \<in> free_frames s \<and> free_frames s' = free_frames s - {a} \<and> tracked s' = tracked s"
    and alloc_None: "inv s \<Longrightarrow> alloc s = (None, s') \<Longrightarrow> s' = s \<and> free_frames s = {}"
    and dealloc_law: "inv s \<Longrightarrow> a \<in> tracked s \<Longrightarrow>
      inv (dealloc a s) \<and> free_frames (dealloc a s) = insert a (free_frames s)
      \<and> tracked (dealloc a s) = tracked s"

text \<open>
  Allocation of several frames, as a caller does it: the frames taken before a failure are
  not given back. \<open>dealloc_frames\<close> returns a list of frames.
\<close>

fun alloc_frames :: "('s \<Rightarrow> nat option \<times> 's) \<Rightarrow> nat \<Rightarrow> nat list \<Rightarrow> 's \<Rightarrow> nat list option \<times> 's" where
  "alloc_frames alloc 0 frames s = (Some frames, s)"
| "alloc_frames alloc (Suc n) frames s =
     (case alloc s of
        (None, s) \<Rightarrow> (None, s)
      | (Some a, s) \<Rightarrow> alloc_frames alloc n (frames @ [a]) s)"

definition dealloc_frames :: "(nat \<Rightarrow> 's \<Rightarrow> 's) \<Rightarrow> nat list \<Rightarrow> 's \<Rightarrow> 's" where
  "dealloc_frames dealloc frames s = fold dealloc frames s"

context frame_pool
begin

lemma alloc_frames_Some:
  assumes "inv s" "alloc_frames alloc n fs s = (Some fs', s')"
  shows "\<exists>new. fs' = fs @ new \<and> length new = n \<and> distinct new \<and> set new \<subseteq> free_frames s
    \<and> free_frames s' = free_frames s - set new \<and> inv s' \<and> tracked s' = tracked s"
  using assms
proof (induction n arbitrary: fs s)
  case 0
  then show ?case by simp
next
  case (Suc n)
  then obtain a s1 where a: "alloc s = (Some a, s1)" "alloc_frames alloc n (fs @ [a]) s1 = (Some fs', s')"
    by (auto split: prod.splits option.splits)
  from alloc_Some [OF Suc.prems(1) a(1)] have s1: "inv s1" "a \<in> free_frames s"
      "free_frames s1 = free_frames s - {a}" "tracked s1 = tracked s" by auto
  from Suc.IH [OF s1(1) a(2)] obtain new where "fs' = (fs @ [a]) @ new" "length new = n"
      "distinct new" "set new \<subseteq> free_frames s1" "free_frames s' = free_frames s1 - set new"
      "inv s'" "tracked s' = tracked s1" by blast
  with s1 show ?case by (intro exI [of _ "a # new"]) auto
qed

lemma alloc_frames_inv:
  assumes "inv s" "alloc_frames alloc n fs s = (r, s')"
  shows "inv s' \<and> free_frames s' \<subseteq> free_frames s \<and> tracked s' = tracked s"
  using assms
proof (induction n arbitrary: fs s)
  case 0
  then show ?case by simp
next
  case (Suc n)
  obtain r1 s1 where a: "alloc s = (r1, s1)" by fastforce
  show ?case
  proof (cases r1)
    case None
    then show ?thesis using Suc.prems a alloc_None by auto
  next
    case (Some f)
    with alloc_Some [of s f s1] Suc.IH [of s1 "fs @ [f]"] Suc.prems a show ?thesis by auto
  qed
qed

lemma alloc_frames_total:
  assumes "inv s" "n \<le> card (free_frames s)"
  shows "\<exists>fs' s'. alloc_frames alloc n fs s = (Some fs', s')"
  using assms
proof (induction n arbitrary: fs s)
  case 0
  then show ?case by simp
next
  case (Suc n)
  obtain r1 s1 where a: "alloc s = (r1, s1)" by fastforce
  from Suc.prems have ne: "free_frames s \<noteq> {}" by auto
  then obtain f where "r1 = Some f" using alloc_None [OF Suc.prems(1)] a by (cases r1) auto
  moreover from this alloc_Some [OF Suc.prems(1)] a
  have s1: "inv s1" "f \<in> free_frames s" "free_frames s1 = free_frames s - {f}" by auto
  then have "n \<le> card (free_frames s1)"
    using Suc.prems finite_free by (simp add: card_Diff_singleton)
  ultimately show ?case using Suc.IH [OF s1(1), of "fs @ [f]"] a by simp
qed

lemma dealloc_frames_law:
  assumes "inv s" "set fs \<subseteq> tracked s"
  shows "inv (dealloc_frames dealloc fs s)
    \<and> free_frames (dealloc_frames dealloc fs s) = set fs \<union> free_frames s
    \<and> tracked (dealloc_frames dealloc fs s) = tracked s"
  using assms unfolding dealloc_frames_def
proof (induction fs arbitrary: s)
  case (Cons f fs)
  from dealloc_law [of s f] Cons.prems Cons.IH [of "dealloc f s"] show ?case by auto
qed simp

end

definition free_addrs :: "frame_allocator \<Rightarrow> nat set" where
  "free_addrs fa = (\<lambda>i. i * FRAME_SIZE) ` free_idx (fa_bitmap fa)"

definition tracked_addrs :: "frame_allocator \<Rightarrow> nat set" where
  "tracked_addrs fa = (\<lambda>i. i * FRAME_SIZE) ` {..<fa_total_frames fa}"

lemma inj_frame: "inj (\<lambda>i. i * FRAME_SIZE)"
  by (simp add: inj_on_def FRAME_SIZE_def)

interpretation bitmap: frame_pool frame_inv free_addrs tracked_addrs fa_alloc_frame fa_dealloc_frame
proof
  fix s assume inv: "frame_inv s"
  show "free_addrs s \<subseteq> tracked_addrs s" "finite (free_addrs s)"
    using inv by (auto simp: free_addrs_def tracked_addrs_def frame_inv_def)
  show "frame_inv s' \<and> a \<in> free_addrs s \<and> free_addrs s' = free_addrs s - {a}
      \<and> tracked_addrs s' = tracked_addrs s" if "fa_alloc_frame s = (Some a, s')" for a s'
    using fa_alloc_Some [OF inv that]
    by (auto simp: free_addrs_def tracked_addrs_def image_set_diff [OF inj_frame] FRAME_SIZE_def)
  show "s' = s \<and> free_addrs s = {}" if "fa_alloc_frame s = (None, s')" for s'
    using fa_alloc_None [OF inv that] by (simp add: free_addrs_def)
  show "frame_inv (fa_dealloc_frame a s) \<and> free_addrs (fa_dealloc_frame a s) = insert a (free_addrs s)
      \<and> tracked_addrs (fa_dealloc_frame a s) = tracked_addrs s" if "a \<in> tracked_addrs s" for a
    using fa_dealloc [OF inv] that by (auto simp: free_addrs_def tracked_addrs_def)
qed

section \<open>Properties of the allocator\<close>

text \<open>
  C15: the bitmap allocator implements a set of free frames. An allocation hands out the lowest
  free frame and removes exactly it, and fails only when no frame is free; giving back a tracked
  frame adds exactly it; the count kept beside the bitmap is the number of free frames.
\<close>

theorem frame_allocator_refines_set:
  assumes "frame_inv fa"
  shows "(case fa_alloc_frame fa of
      (None, fa') \<Rightarrow> fa' = fa \<and> free_addrs fa = {}
    | (Some a, fa') \<Rightarrow> frame_inv fa' \<and> a \<in> free_addrs fa \<and> (\<forall>b\<in>free_addrs fa. a \<le> b)
        \<and> free_addrs fa' = free_addrs fa - {a})
    \<and> (a \<in> tracked_addrs fa \<longrightarrow> frame_inv (fa_dealloc_frame a fa)
        \<and> free_addrs (fa_dealloc_frame a fa) = insert a (free_addrs fa))
    \<and> frame_stats (Some fa) = (card (free_addrs fa), fa_total_frames fa)"
proof -
  have "card (free_addrs fa) = fa_free_count fa"
    using assms inj_frame by (simp add: free_addrs_def frame_inv_def card_image inj_on_def)
  moreover have "\<forall>b\<in>free_addrs fa. a \<le> b" if "fa_alloc_frame fa = (Some a, fa')" for a fa'
    using fa_alloc_Some [OF assms that] by (auto simp: free_addrs_def)
  ultimately show ?thesis
    using bitmap.alloc_Some [OF assms] bitmap.alloc_None [OF assms] bitmap.dealloc_law [OF assms]
    by (simp add: frame_stats_def split: prod.splits option.splits)
qed

text \<open>
  C16: the allocator built at boot from regions with disjoint frames satisfies the invariant, and
  its free frames are exactly the frames that lie completely in a usable region and not below
  the reserved end.
\<close>

theorem frame_allocator_boot:
  assumes "sorted_wrt (\<lambda>r r'. region_frames reserved r \<inter> region_frames reserved r' = {}) regions"
  shows "frame_inv (frame_allocator_new regions reserved)
    \<and> free_addrs (frame_allocator_new regions reserved) =
      {a. FRAME_SIZE dvd a \<and> reserved \<le> a
        \<and> (\<exists>r\<in>set regions. mr_usable r \<and> mr_start r \<le> a \<and> a + FRAME_SIZE \<le> mr_end r)}"
proof -
  have fits: "i \<in> region_frames reserved r \<longleftrightarrow> reserved \<le> i * FRAME_SIZE \<and> mr_usable r
      \<and> mr_start r \<le> i * FRAME_SIZE \<and> i * FRAME_SIZE + FRAME_SIZE \<le> mr_end r" for i r
    by (auto simp: region_frames_def range_frames_def align_down_mult FRAME_SIZE_def)
  have "free_addrs (frame_allocator_new regions reserved) =
      {i * FRAME_SIZE | i. \<exists>r\<in>set regions. i \<in> region_frames reserved r}"
    using frame_allocator_new_inv [OF assms] by (auto simp: free_addrs_def)
  then show ?thesis
    using frame_allocator_new_inv [OF assms]
    unfolding fits by (auto simp: mult.commute FRAME_SIZE_def elim!: dvdE)
qed

definition boot_example :: frame_allocator where
  "boot_example = frame_allocator_new
     [\<lparr>mr_start = 0, mr_end = 12288, mr_usable = True\<rparr>,
      \<lparr>mr_start = 12288, mr_end = 20480, mr_usable = False\<rparr>] 4096"

theorem frame_allocator_boot_witness:
  "free_addrs boot_example = {a. FRAME_SIZE dvd a \<and> 4096 \<le> a \<and> a + FRAME_SIZE \<le> 12288}"
  using frame_allocator_boot [of 4096 "[\<lparr>mr_start = 0, mr_end = 12288, mr_usable = True\<rparr>,
      \<lparr>mr_start = 12288, mr_end = 20480, mr_usable = False\<rparr>]"]
  by (simp add: boot_example_def region_frames_def)

theorem frame_allocator_refines_set_witness:
  "frame_stats (Some boot_example) = (card (free_addrs boot_example), fa_total_frames boot_example)"
proof -
  have "frame_inv boot_example"
    unfolding boot_example_def
    by (rule conjunct1 [OF frame_allocator_new_inv]) (simp add: region_frames_def)
  from frame_allocator_refines_set [OF this] show ?thesis by blast
qed

text \<open>
  Regions that overlap are counted twice: the free count of this allocator is four, but it
  has two free frames.
\<close>

theorem boot_overlap_miscounts:
  "fst (frame_stats (Some (frame_allocator_new
      [\<lparr>mr_start = 0, mr_end = 8192, mr_usable = True\<rparr>,
       \<lparr>mr_start = 0, mr_end = 8192, mr_usable = True\<rparr>] 0))) = 4
   \<and> free_idx (fa_bitmap (frame_allocator_new
      [\<lparr>mr_start = 0, mr_end = 8192, mr_usable = True\<rparr>,
       \<lparr>mr_start = 0, mr_end = 8192, mr_usable = True\<rparr>] 0)) = {0, 1}"
proof -
  have "frame_allocator_new
      [\<lparr>mr_start = 0, mr_end = 8192, mr_usable = True\<rparr>,
       \<lparr>mr_start = 0, mr_end = 8192, mr_usable = True\<rparr>] 0 =
    \<lparr>fa_bitmap = [3], fa_base_addr = 0, fa_total_frames = 2, fa_free_count = 4\<rparr>"
    by (simp add: frame_allocator_new_def mark_region_def align_down_def FRAME_SIZE_def
        mark_range.simps mark_free_def)
  moreover have "free_idx [3] = {0, 1}"
  proof -
    have "i < 64 \<Longrightarrow> bit (3 :: u64) i \<longleftrightarrow> i = 0 \<or> i = 1" for i
      by (cases i; cases "i - 1") (auto simp: bit_numeral_rec bit_Suc)
    then show ?thesis by (auto simp: free_idx_def)
  qed
  ultimately show ?thesis by (simp add: frame_stats_def)
qed

end
