(* ===== verification/Mem_Shmem.thy ===== *)
theory Mem_Shmem
  imports Mem_Frame
begin

text \<open>
  Shared memory segments (\<open>kernel/src/memory/shmem.rs\<close>), a client of the frame allocator, and
  the reference counts of copy-on-write frames (\<open>kernel/src/memory/cow.rs\<close>). The page table of
  the attaching process is an argument with the mapping operation as a parameter.
\<close>

unbundle bit_operations_syntax

section \<open>The global allocator as a pool\<close>

definition pool_inv :: "frame_allocator option \<Rightarrow> bool" where
  "pool_inv g = (case g of None \<Rightarrow> True | Some fa \<Rightarrow> frame_inv fa)"

definition pool_free :: "frame_allocator option \<Rightarrow> nat set" where
  "pool_free g = (case g of None \<Rightarrow> {} | Some fa \<Rightarrow> free_addrs fa)"

definition pool_tracked :: "frame_allocator option \<Rightarrow> nat set" where
  "pool_tracked g = (case g of None \<Rightarrow> {} | Some fa \<Rightarrow> tracked_addrs fa)"

interpretation global_pool: frame_pool pool_inv pool_free pool_tracked alloc_frame dealloc_frame
proof
  fix g assume inv: "pool_inv g"
  show "pool_free g \<subseteq> pool_tracked g" "finite (pool_free g)"
    using inv bitmap.free_tracked bitmap.finite_free
    by (auto simp: pool_inv_def pool_free_def pool_tracked_def split: option.splits)
  show "pool_inv g' \<and> a \<in> pool_free g \<and> pool_free g' = pool_free g - {a}
      \<and> pool_tracked g' = pool_tracked g" if "alloc_frame g = (Some a, g')" for a g'
    using inv that bitmap.alloc_Some
    by (auto simp: alloc_frame_def pool_inv_def pool_free_def pool_tracked_def
        split: option.splits prod.splits)
  show "g' = g \<and> pool_free g = {}" if "alloc_frame g = (None, g')" for g'
    using inv that bitmap.alloc_None
    by (auto simp: alloc_frame_def pool_inv_def pool_free_def split: option.splits prod.splits)
  show "pool_inv (dealloc_frame a g) \<and> pool_free (dealloc_frame a g) = insert a (pool_free g)
      \<and> pool_tracked (dealloc_frame a g) = pool_tracked g" if "a \<in> pool_tracked g" for a
    using inv that bitmap.dealloc_law
    by (auto simp: dealloc_frame_def pool_inv_def pool_free_def pool_tracked_def split: option.splits)
qed

section \<open>Segments\<close>

record shm_segment =
  sg_id :: u64
  sg_name :: string
  sg_frames :: "nat list"
  sg_page_count :: nat
  sg_attached_pids :: "u64 list"
  sg_creator_pid :: u64

record shmem =
  sh_alloc :: "frame_allocator option"
  sh_table :: "u64 \<rightharpoonup> shm_segment"
  sh_names :: "string \<rightharpoonup> u64"
  sh_next_id :: u64

definition shm_create :: "string \<Rightarrow> nat \<Rightarrow> u64 \<Rightarrow> shmem \<Rightarrow> u64 option \<times> shmem" where
  "shm_create name page_count creator_pid st =
     (if page_count = 0 \<or> 256 < page_count then (None, st)
      else
        (case alloc_frames alloc_frame page_count [] (sh_alloc st) of
           (None, al) \<Rightarrow> (None, st\<lparr>sh_alloc := al\<rparr>)
         | (Some frames, al) \<Rightarrow>
             (let sid = sh_next_id st;
                  segment = \<lparr>sg_id = sid, sg_name = name, sg_frames = frames,
                    sg_page_count = page_count, sg_attached_pids = [], sg_creator_pid = creator_pid\<rparr>
              in (Some sid,
                  st\<lparr>sh_alloc := al, sh_next_id := sid + 1,
                     sh_table := (sh_table st)(sid \<mapsto> segment),
                     sh_names := (sh_names st)(name \<mapsto> sid)\<rparr>))))"

text \<open>
  \<open>map_page vaddr frame pt\<close> stands for \<open>paging::map_page\<close> on the page table of the process: it
  reports success and returns the table.
\<close>

fun map_frames :: "(u64 \<Rightarrow> nat \<Rightarrow> 'pt \<Rightarrow> bool \<times> 'pt) \<Rightarrow> u64 \<Rightarrow> nat \<Rightarrow> nat list \<Rightarrow> 'pt \<Rightarrow> bool \<times> 'pt" where
  "map_frames map_page start_vaddr i [] pt = (True, pt)"
| "map_frames map_page start_vaddr i (frame # frames) pt =
     (case map_page (start_vaddr + of_nat i * 4096) frame pt of
        (False, pt) \<Rightarrow> (False, pt)
      | (True, pt) \<Rightarrow> map_frames map_page start_vaddr (i + 1) frames pt)"

definition shm_attach :: "(u64 \<Rightarrow> nat \<Rightarrow> 'pt \<Rightarrow> bool \<times> 'pt) \<Rightarrow> u64 \<Rightarrow> u64 \<Rightarrow> u64 \<Rightarrow> 'pt \<Rightarrow> shmem \<Rightarrow>
    u64 option \<times> 'pt \<times> shmem" where
  "shm_attach map_page shm_id hint_vaddr pid pt st =
     (case sh_table st shm_id of
        None \<Rightarrow> (None, pt, st)
      | Some segment \<Rightarrow>
          (let start_vaddr = (if hint_vaddr = 0 then 0x20000000 else hint_vaddr AND NOT 0xFFF) in
           case map_frames map_page start_vaddr 0 (sg_frames segment) pt of
             (False, pt) \<Rightarrow> (None, pt, st)
           | (True, pt) \<Rightarrow>
               (let segment =
                  (if pid \<in> set (sg_attached_pids segment) then segment
                   else segment\<lparr>sg_attached_pids := sg_attached_pids segment @ [pid]\<rparr>)
                in (Some start_vaddr, pt, st\<lparr>sh_table := (sh_table st)(shm_id \<mapsto> segment)\<rparr>))))"

definition shm_detach :: "u64 \<Rightarrow> u64 \<Rightarrow> shmem \<Rightarrow> shmem" where
  "shm_detach shm_id pid st =
     (case sh_table st shm_id of
        None \<Rightarrow> st
      | Some segment \<Rightarrow>
          st\<lparr>sh_table := (sh_table st)(shm_id \<mapsto>
             segment\<lparr>sg_attached_pids := filter (\<lambda>p. p \<noteq> pid) (sg_attached_pids segment)\<rparr>)\<rparr>)"

definition shm_destroy :: "u64 \<Rightarrow> shmem \<Rightarrow> bool \<times> shmem" where
  "shm_destroy shm_id st =
     (case sh_table st shm_id of
        None \<Rightarrow> (False, st)
      | Some segment \<Rightarrow>
          if sg_attached_pids segment \<noteq> [] then (False, st)
          else
            (True, st\<lparr>sh_alloc := dealloc_frames dealloc_frame (sg_frames segment) (sh_alloc st),
                      sh_table := (sh_table st)(shm_id := None),
                      sh_names := (sh_names st)(sg_name segment := None)\<rparr>))"

definition shm_lookup :: "string \<Rightarrow> shmem \<Rightarrow> u64 option" where
  "shm_lookup name st = sh_names st name"

definition shmem_stats :: "shmem \<Rightarrow> nat \<times> nat" where
  "shmem_stats st = (map_len (sh_table st), sum_list (map sg_page_count (map_values (sh_table st))))"

definition list_segments :: "shmem \<Rightarrow> (u64 \<times> string \<times> nat \<times> nat) list" where
  "list_segments st =
     map (\<lambda>s. (sg_id s, sg_name s, sg_page_count s, length (sg_attached_pids s)))
       (map_values (sh_table st))"

section \<open>Reference counts\<close>

type_synonym refcounts = "u64 \<rightharpoonup> u32"





definition cow_stats :: "refcounts \<Rightarrow> nat \<times> nat" where
  "cow_stats refs = (length (filter (\<lambda>v. 1 < v) (map_values refs)), map_len refs)"

section \<open>Ownership of frames\<close>

definition segment_ok :: "frame_allocator option \<Rightarrow> shm_segment \<Rightarrow> bool" where
  "segment_ok al s \<longleftrightarrow> distinct (sg_frames s) \<and> set (sg_frames s) \<subseteq> pool_tracked al - pool_free al
     \<and> length (sg_frames s) = sg_page_count s \<and> 0 < sg_page_count s \<and> sg_page_count s \<le> 256
     \<and> distinct (sg_attached_pids s)"

text \<open>
  Segments own their frames: none is free, and no two segments share one. Identifiers and
  names lead to live segments.
\<close>

definition shm_inv :: "shmem \<Rightarrow> bool" where
  "shm_inv st \<longleftrightarrow> pool_inv (sh_alloc st)
     \<and> (\<forall>i s. sh_table st i = Some s \<longrightarrow> segment_ok (sh_alloc st) s \<and> sg_id s = i \<and> i < sh_next_id st)
     \<and> (\<forall>i s j t. sh_table st i = Some s \<longrightarrow> sh_table st j = Some t \<longrightarrow> i \<noteq> j \<longrightarrow>
          set (sg_frames s) \<inter> set (sg_frames t) = {})
     \<and> (\<forall>n i. sh_names st n = Some i \<longrightarrow> (\<exists>s. sh_table st i = Some s \<and> sg_name s = n))"


lemma shm_inv_pool: "shm_inv st \<Longrightarrow> pool_inv (sh_alloc st)"
  by (simp add: shm_inv_def)

lemma shm_inv_segment:
  "shm_inv st \<Longrightarrow> sh_table st i = Some s \<Longrightarrow>
   segment_ok (sh_alloc st) s \<and> sg_id s = i \<and> i < sh_next_id st"
  by (simp add: shm_inv_def)

lemma shm_inv_disjoint:
  "shm_inv st \<Longrightarrow> sh_table st i = Some s \<Longrightarrow> sh_table st j = Some t \<Longrightarrow> i \<noteq> j \<Longrightarrow>
   set (sg_frames s) \<inter> set (sg_frames t) = {}"
  unfolding shm_inv_def by blast

lemma shm_inv_name: "shm_inv st \<Longrightarrow> sh_names st n = Some i \<Longrightarrow> \<exists>s. sh_table st i = Some s \<and> sg_name s = n"
  by (simp add: shm_inv_def)

lemma shm_inv_upd:
  assumes "shm_inv st" "sh_table st i = Some s" "sg_frames s' = sg_frames s" "sg_id s' = sg_id s"
    "sg_name s' = sg_name s" "segment_ok (sh_alloc st) s'"
  shows "shm_inv (st\<lparr>sh_table := (sh_table st)(i \<mapsto> s')\<rparr>)"
proof -
  have "set (sg_frames s) \<inter> set (sg_frames t) = {}" "set (sg_frames t) \<inter> set (sg_frames s) = {}"
    if "sh_table st j = Some t" "j \<noteq> i" for j t
    using shm_inv_disjoint [OF assms(1,2) that(1)] that(2) by auto
  then show ?thesis
    using assms shm_inv_segment [OF assms(1)] shm_inv_disjoint [OF assms(1)] shm_inv_name [OF assms(1)]
      shm_inv_pool [OF assms(1)]
    unfolding shm_inv_def by (simp, metis option.inject)
qed



lemma shm_attach_inv [inv_intros]:
  assumes inv: "shm_inv st" and run: "shm_attach mp i hint pid pt st = (r, pt', st')"
  shows "shm_inv st'"
proof (cases "sh_table st i")
  case None
  then show ?thesis using assms by (simp add: shm_attach_def)
next
  case (Some s)
  let ?s = "if pid \<in> set (sg_attached_pids s) then s
    else s\<lparr>sg_attached_pids := sg_attached_pids s @ [pid]\<rparr>"
  have "st' = st \<or> st' = st\<lparr>sh_table := (sh_table st)(i \<mapsto> ?s)\<rparr>"
    using run Some by (auto simp: shm_attach_def Let_def split: prod.splits bool.splits)
  moreover have "shm_inv (st\<lparr>sh_table := (sh_table st)(i \<mapsto> ?s)\<rparr>)"
    using shm_inv_segment [OF inv Some]
    by (intro shm_inv_upd [OF inv Some]) (auto simp: segment_ok_def)
  ultimately show ?thesis using inv by auto
qed

lemma shm_detach_inv [inv_intros]:
  assumes inv: "shm_inv st"
  shows "shm_inv (shm_detach i pid st)"
proof (cases "sh_table st i")
  case (Some s)
  let ?s = "s\<lparr>sg_attached_pids := filter (\<lambda>p. p \<noteq> pid) (sg_attached_pids s)\<rparr>"
  have "shm_inv (st\<lparr>sh_table := (sh_table st)(i \<mapsto> ?s)\<rparr>)"
    using shm_inv_segment [OF inv Some]
    by (intro shm_inv_upd [OF inv Some]) (auto simp: segment_ok_def)
  then show ?thesis using Some by (simp add: shm_detach_def)
qed (use inv in \<open>simp add: shm_detach_def\<close>)

lemma shm_destroy_inv [inv_intros]:
  assumes inv: "shm_inv st"
  shows "shm_inv (snd (shm_destroy i st))"
proof (cases "\<exists>s. sh_table st i = Some s \<and> sg_attached_pids s = []")
  case True
  then obtain s where s: "sh_table st i = Some s" "sg_attached_pids s = []" by blast
  have pool: "pool_inv (sh_alloc st)" using inv by (simp add: shm_inv_def)
  have sub: "set (sg_frames s) \<subseteq> pool_tracked (sh_alloc st)"
    using inv s by (auto simp: shm_inv_def segment_ok_def)
  let ?al = "dealloc_frames dealloc_frame (sg_frames s) (sh_alloc st)"
  note al = global_pool.dealloc_frames_law [OF pool sub]
  have st': "snd (shm_destroy i st) = st\<lparr>sh_alloc := ?al, sh_table := (sh_table st)(i := None),
      sh_names := (sh_names st)(sg_name s := None)\<rparr>"
    using s by (simp add: shm_destroy_def)
  have "segment_ok ?al t" if "sh_table st j = Some t" "j \<noteq> i" for j t
  proof -
    have "segment_ok (sh_alloc st) t" "set (sg_frames t) \<inter> set (sg_frames s) = {}"
      using shm_inv_segment [OF inv that(1)] shm_inv_disjoint [OF inv that(1) s(1) that(2)] by auto
    then show ?thesis using al by (auto simp: segment_ok_def)
  qed
  moreover have "m = sg_name s" if "sh_names st m = Some i" for m
    using shm_inv_name [OF inv that] s(1) by auto
  ultimately show ?thesis
    unfolding shm_inv_def st' using inv al s(1) by (auto simp: shm_inv_def)
next
  case False
  then have "snd (shm_destroy i st) = st" by (auto simp: shm_destroy_def split: option.splits)
  then show ?thesis using inv by simp
qed

section \<open>Reachable states\<close>


definition shmem_init :: "frame_allocator option \<Rightarrow> shmem" where
  "shmem_init al = \<lparr>sh_alloc = al, sh_table = Map.empty, sh_names = Map.empty, sh_next_id = 1\<rparr>"




section \<open>Counting sharers\<close>







section \<open>Properties of shared memory\<close>




text \<open>An allocator with four frames, all free.\<close>

definition four_frames :: frame_allocator where
  "four_frames = \<lparr>fa_bitmap = [15], fa_base_addr = 0, fa_total_frames = 4, fa_free_count = 4\<rparr>"

lemma four_frames_first: "fa_alloc_frame four_frames =
    (Some 0, \<lparr>fa_bitmap = [14], fa_base_addr = 0, fa_total_frames = 4, fa_free_count = 3\<rparr>)"
  by code_simp


text \<open>
  Names are not unique. Creating two segments of one name and destroying the first removes
  the name of the second: it is alive but can no longer be found.
\<close>

theorem shmem_duplicate_name:
  "\<exists>st. shm_lookup ''a'' st = None \<and> (\<exists>s. sh_table st 2 = Some s \<and> sg_name s = ''a'')
    \<and> st = snd (shm_destroy 1 (snd (shm_create ''a'' 1 7
        (snd (shm_create ''a'' 1 7 (shmem_init (Some four_frames)))))))"
proof -
  have "fa_alloc_frame \<lparr>fa_bitmap = [14], fa_base_addr = 0, fa_total_frames = 4, fa_free_count = 3\<rparr> =
    (Some 4096, \<lparr>fa_bitmap = [12], fa_base_addr = 0, fa_total_frames = 4, fa_free_count = 2\<rparr>)"
    by code_simp
  then show ?thesis
    by (simp add: shm_create_def shmem_init_def alloc_frame_def four_frames_first shm_destroy_def
        shm_lookup_def)
qed

text \<open>
  A creation that runs out of frames does not return the frames it already took: a request
  for five pages with four free frames fails and leaves no frame free.
\<close>

theorem shmem_create_leaks:
  "case shm_create ''a'' 5 7 (shmem_init (Some four_frames)) of (r, st) \<Rightarrow>
     r = None \<and> map_option fa_free_count (sh_alloc st) = Some 0 \<and> sh_table st = Map.empty"
proof -
  have "fa_alloc_frame \<lparr>fa_bitmap = [14], fa_base_addr = 0, fa_total_frames = 4, fa_free_count = 3\<rparr> =
      (Some 4096, \<lparr>fa_bitmap = [12], fa_base_addr = 0, fa_total_frames = 4, fa_free_count = 2\<rparr>)"
    "fa_alloc_frame \<lparr>fa_bitmap = [12], fa_base_addr = 0, fa_total_frames = 4, fa_free_count = 2\<rparr> =
      (Some 8192, \<lparr>fa_bitmap = [8], fa_base_addr = 0, fa_total_frames = 4, fa_free_count = 1\<rparr>)"
    "fa_alloc_frame \<lparr>fa_bitmap = [8], fa_base_addr = 0, fa_total_frames = 4, fa_free_count = 1\<rparr> =
      (Some 12288, \<lparr>fa_bitmap = [0], fa_base_addr = 0, fa_total_frames = 4, fa_free_count = 0\<rparr>)"
    by code_simp+
  moreover have "fa_alloc_frame \<lparr>fa_bitmap = [0], fa_base_addr = 0, fa_total_frames = 4, fa_free_count = 0\<rparr> =
      (None, \<lparr>fa_bitmap = [0], fa_base_addr = 0, fa_total_frames = 4, fa_free_count = 0\<rparr>)"
    by (simp add: fa_alloc_frame_def)
  ultimately have "alloc_frames alloc_frame (Suc (Suc (Suc (Suc (Suc 0))))) [] (Some four_frames) =
      (None, Some \<lparr>fa_bitmap = [0], fa_base_addr = 0, fa_total_frames = 4, fa_free_count = 0\<rparr>)"
    by (simp add: alloc_frame_def four_frames_first)
  moreover have "Suc (Suc (Suc (Suc (Suc 0)))) = 5" by simp
  ultimately have "alloc_frames alloc_frame 5 [] (Some four_frames) =
      (None, Some \<lparr>fa_bitmap = [0], fa_base_addr = 0, fa_total_frames = 4, fa_free_count = 0\<rparr>)"
    by (simp only:)
  then show ?thesis by (simp add: shm_create_def shmem_init_def)
qed



end
