(* ===== verification/Handles.thy ===== *)
theory Handles
  imports Smart_Prelude
begin

text \<open>
  The contract of the kernel's tables of numbered objects: descriptors, channels, wait objects. An
  allocation returns a number that is not in use and disturbs no other entry, as long as the
  counter has room before it wraps around.
\<close>

locale handle_table =
  fixes find :: "'s \<Rightarrow> 'k \<rightharpoonup> 'v"
    and alloc :: "'v \<Rightarrow> 's \<Rightarrow> 'k \<times> 's"
    and room :: "nat \<Rightarrow> 's \<Rightarrow> bool"
  assumes alloc_fresh: "room (Suc n) s \<Longrightarrow> alloc v s = (k, s') \<Longrightarrow> find s k = None"
    and alloc_find: "room (Suc n) s \<Longrightarrow> alloc v s = (k, s') \<Longrightarrow> find s' = (find s)(k \<mapsto> v)"
    and alloc_room: "room (Suc n) s \<Longrightarrow> alloc v s = (k, s') \<Longrightarrow> room n s'"
begin

fun alloc_all :: "'v list \<Rightarrow> 's \<Rightarrow> 'k list \<times> 's" where
  "alloc_all [] s = ([], s)"
| "alloc_all (v # vs) s = (case alloc v s of (k, s) \<Rightarrow> case alloc_all vs s of (ks, s) \<Rightarrow> (k # ks, s))"

lemma alloc_all_kept:
  "room n s \<Longrightarrow> length vs \<le> n \<Longrightarrow> alloc_all vs s = (ks, s') \<Longrightarrow> find s k = Some v \<Longrightarrow>
     find s' k = Some v \<and> k \<notin> set ks"
proof (induction vs arbitrary: n s ks)
  case (Cons w vs)
  then obtain m where n: "n = Suc m" by (cases n) auto
  obtain j t ls where st: "alloc w s = (j, t)" "alloc_all vs t = (ls, s')" "ks = j # ls"
    using Cons.prems(3) by (auto split: prod.splits)
  note a = Cons.prems(1) [unfolded n] st(1)
  have "j \<noteq> k" using alloc_fresh [OF a] Cons.prems(4) by auto
  then have "find t k = Some v" using alloc_find [OF a] Cons.prems(4) by simp
  with Cons.IH [OF alloc_room [OF a] _ st(2)] Cons.prems(2) \<open>j \<noteq> k\<close> show ?case
    by (auto simp: n st(3))
qed simp

lemma alloc_all_distinct:
  "room n s \<Longrightarrow> length vs \<le> n \<Longrightarrow> alloc_all vs s = (ks, s') \<Longrightarrow>
     distinct ks \<and> map (find s') ks = map Some vs \<and> (\<forall>k \<in> set ks. find s k = None)"
proof (induction vs arbitrary: n s ks)
  case (Cons w vs)
  then obtain m where n: "n = Suc m" by (cases n) auto
  obtain j t ls where st: "alloc w s = (j, t)" "alloc_all vs t = (ls, s')" "ks = j # ls"
    using Cons.prems(3) by (auto split: prod.splits)
  note a = Cons.prems(1) [unfolded n] st(1)
  have len: "length vs \<le> m" using Cons.prems(2) n by simp
  have j: "find t j = Some w" "find s j = None" "find t = (find s)(j \<mapsto> w)"
    using alloc_find [OF a] alloc_fresh [OF a] by simp_all
  from Cons.IH [OF alloc_room [OF a] len st(2)]
    alloc_all_kept [OF alloc_room [OF a] len st(2) j(1)] j
  show ?case by (auto simp: st(3) split: if_splits)
qed simp

end

end
