(* ===== verification/Proc_Pipe.thy ===== *)
theory Proc_Pipe
  imports Smart_Prelude
begin

text \<open>
  Kernel pipes (\<open>kernel/src/process/pipe.rs\<close>): the ring buffer of one pipe, and the global
  table of pipes with its identifier counter. The ring buffer refines a queue of bytes of
  bounded length; every run of reads and writes delivers the bytes in the order they were
  accepted.
\<close>

section \<open>The ring buffer\<close>

definition PIPE_BUF_SIZE :: nat where
  "PIPE_BUF_SIZE = 4096"

record pipe =
  pp_buffer :: bytes
  pp_read_pos :: nat
  pp_write_pos :: nat
  pp_count :: nat
  pp_closed_write :: bool
  pp_closed_read :: bool

definition pipe_new :: pipe where
  "pipe_new = \<lparr>pp_buffer = replicate PIPE_BUF_SIZE 0, pp_read_pos = 0, pp_write_pos = 0,
     pp_count = 0, pp_closed_write = False, pp_closed_read = False\<rparr>"

definition read_step :: "nat \<Rightarrow> pipe \<times> bytes \<Rightarrow> pipe \<times> bytes" where
  "read_step i = (\<lambda>(p, buf).
     (p\<lparr>pp_read_pos := (pp_read_pos p + 1) mod PIPE_BUF_SIZE\<rparr>,
      buf[i := pp_buffer p ! pp_read_pos p]))"

text \<open>\<open>read\<close> returns the pipe, the caller's buffer and the number of bytes.\<close>

definition pp_read :: "pipe \<Rightarrow> bytes \<Rightarrow> pipe \<times> bytes \<times> nat" where
  "pp_read p buf =
     (let to_read = min (length buf) (pp_count p);
          (p, buf) = fold read_step [0..<to_read] (p, buf)
      in (p\<lparr>pp_count := pp_count p - to_read\<rparr>, buf, to_read))"

definition write_step :: "bytes \<Rightarrow> nat \<Rightarrow> pipe \<Rightarrow> pipe" where
  "write_step bs i p =
     p\<lparr>pp_buffer := (pp_buffer p)[pp_write_pos p := bs ! i],
       pp_write_pos := (pp_write_pos p + 1) mod PIPE_BUF_SIZE\<rparr>"

definition pp_write :: "pipe \<Rightarrow> bytes \<Rightarrow> pipe \<times> nat" where
  "pp_write p bs =
     (let space = PIPE_BUF_SIZE - pp_count p;
          to_write = min (length bs) space;
          p = fold (write_step bs) [0..<to_write] p
      in (p\<lparr>pp_count := pp_count p + to_write\<rparr>, to_write))"

definition pp_available :: "pipe \<Rightarrow> nat" where
  "pp_available p = pp_count p"

section \<open>The pipe table\<close>

record pipe_table =
  pt_pipes :: "u64 \<rightharpoonup> pipe"
  pt_next_id :: u64

definition pipe_table_new :: pipe_table where
  "pipe_table_new = \<lparr>pt_pipes = Map.empty, pt_next_id = 1\<rparr>"

definition create_pipe :: "pipe_table \<Rightarrow> pipe_table \<times> u64" where
  "create_pipe t =
     (let pid = pt_next_id t; t = t\<lparr>pt_next_id := pid + 1\<rparr> in
      (t\<lparr>pt_pipes := (pt_pipes t)(pid \<mapsto> pipe_new)\<rparr>, pid))"

definition pipe_read :: "u64 \<Rightarrow> bytes \<Rightarrow> pipe_table \<Rightarrow> (string + bytes \<times> nat) \<times> pipe_table" where
  "pipe_read pipe_id buf t =
     (case pt_pipes t pipe_id of
        None \<Rightarrow> (Inl ''Invalid pipe'', t)
      | Some p \<Rightarrow>
          if pp_count p = 0 \<and> pp_closed_write p then (Inr (buf, 0), t)
          else (let (p, buf, n) = pp_read p buf
                in (Inr (buf, n), t\<lparr>pt_pipes := (pt_pipes t)(pipe_id \<mapsto> p)\<rparr>)))"

definition pipe_write :: "u64 \<Rightarrow> bytes \<Rightarrow> pipe_table \<Rightarrow> (string + nat) \<times> pipe_table" where
  "pipe_write pipe_id bs t =
     (case pt_pipes t pipe_id of
        None \<Rightarrow> (Inl ''Invalid pipe'', t)
      | Some p \<Rightarrow>
          if pp_closed_read p then (Inl ''Broken pipe'', t)
          else (let (p, n) = pp_write p bs
                in (Inr n, t\<lparr>pt_pipes := (pt_pipes t)(pipe_id \<mapsto> p)\<rparr>)))"

definition close_write :: "u64 \<Rightarrow> pipe_table \<Rightarrow> pipe_table" where
  "close_write pipe_id t =
     (case pt_pipes t pipe_id of
        None \<Rightarrow> t
      | Some p \<Rightarrow> t\<lparr>pt_pipes := (pt_pipes t)(pipe_id \<mapsto> p\<lparr>pp_closed_write := True\<rparr>)\<rparr>)"

definition close_read :: "u64 \<Rightarrow> pipe_table \<Rightarrow> pipe_table" where
  "close_read pipe_id t =
     (case pt_pipes t pipe_id of
        None \<Rightarrow> t
      | Some p \<Rightarrow> t\<lparr>pt_pipes := (pt_pipes t)(pipe_id \<mapsto> p\<lparr>pp_closed_read := True\<rparr>)\<rparr>)"

definition maybe_destroy :: "u64 \<Rightarrow> pipe_table \<Rightarrow> pipe_table" where
  "maybe_destroy pipe_id t =
     (case pt_pipes t pipe_id of
        None \<Rightarrow> t
      | Some p \<Rightarrow>
          if pp_closed_read p \<and> pp_closed_write p
          then t\<lparr>pt_pipes := (pt_pipes t)(pipe_id := None)\<rparr> else t)"

definition pipe_readable :: "u64 \<Rightarrow> pipe_table \<Rightarrow> bool" where
  "pipe_readable pipe_id t =
     (case pt_pipes t pipe_id of
        None \<Rightarrow> False
      | Some p \<Rightarrow> 0 < pp_count p \<or> pp_closed_write p)"

section \<open>The queue a pipe stands for\<close>

definition pipe_inv :: "pipe \<Rightarrow> bool" where
  "pipe_inv p \<longleftrightarrow> length (pp_buffer p) = PIPE_BUF_SIZE \<and> pp_read_pos p < PIPE_BUF_SIZE
     \<and> pp_count p \<le> PIPE_BUF_SIZE
     \<and> pp_write_pos p = (pp_read_pos p + pp_count p) mod PIPE_BUF_SIZE"

definition pipe_queue :: "pipe \<Rightarrow> bytes" where
  "pipe_queue p =
     map (\<lambda>k. pp_buffer p ! ((pp_read_pos p + k) mod PIPE_BUF_SIZE)) [0..<pp_count p]"

lemma length_pipe_queue [simp]: "length (pipe_queue p) = pp_count p"
  by (simp add: pipe_queue_def)

lemma PIPE_BUF_pos [simp]: "0 < PIPE_BUF_SIZE"
  by (simp add: PIPE_BUF_SIZE_def)

lemma pipe_inv_new [inv_intros]: "pipe_inv pipe_new"
  by (simp add: pipe_inv_def pipe_new_def)

lemma pipe_queue_new [simp]: "pipe_queue pipe_new = []"
  by (simp add: pipe_queue_def pipe_new_def)

lemma read_loop:
  assumes "n \<le> length buf"
  shows "fold read_step [0..<n] (p, buf) =
    (p\<lparr>pp_read_pos := if n = 0 then pp_read_pos p else (pp_read_pos p + n) mod PIPE_BUF_SIZE\<rparr>,
     map (\<lambda>k. pp_buffer p ! (if k = 0 then pp_read_pos p else (pp_read_pos p + k) mod PIPE_BUF_SIZE))
       [0..<n] @ drop n buf)"
  using assms
proof (induction n)
  case 0
  then show ?case by simp
next
  case (Suc n)
  then show ?case
    by (auto simp: read_step_def list_update_append mod_Suc_eq drop_update_swap
        Cons_nth_drop_Suc [symmetric])
qed

lemma pp_read_queue:
  assumes "pipe_inv p" "pp_read p buf = (p', buf', n)"
  shows "pipe_inv p' \<and> n = min (length buf) (length (pipe_queue p))
    \<and> buf' = take n (pipe_queue p) @ drop n buf \<and> pipe_queue p' = drop n (pipe_queue p)
    \<and> pp_closed_read p' = pp_closed_read p \<and> pp_closed_write p' = pp_closed_write p"
proof -
  have rp: "pp_read_pos p mod PIPE_BUF_SIZE = pp_read_pos p"
    using assms(1) by (simp add: pipe_inv_def)
  have if_mod: "(if k = 0 then pp_read_pos p else (pp_read_pos p + k) mod PIPE_BUF_SIZE)
      = (pp_read_pos p + k) mod PIPE_BUF_SIZE" for k
    by (simp add: rp)
  let ?n = "min (length buf) (pp_count p)"
  have eq: "n = ?n"
      "p' = p\<lparr>pp_read_pos := (pp_read_pos p + n) mod PIPE_BUF_SIZE, pp_count := pp_count p - n\<rparr>"
      "buf' = map (\<lambda>k. pp_buffer p ! ((pp_read_pos p + k) mod PIPE_BUF_SIZE)) [0..<n] @ drop n buf"
    using assms(2) read_loop [of ?n buf p, unfolded if_mod] by (auto simp: pp_read_def Let_def)
  have "pipe_queue p' = drop n (pipe_queue p)"
    by (rule nth_equalityI)
      (auto simp: eq(2) pipe_queue_def mod_add_left_eq add.assoc less_diff_conv add.commute [of n])
  moreover have "take n (pipe_queue p)
      = map (\<lambda>k. pp_buffer p ! ((pp_read_pos p + k) mod PIPE_BUF_SIZE)) [0..<n]"
    by (simp add: pipe_queue_def take_map eq(1))
  moreover have "pipe_inv p'"
  proof -
    have "n \<le> pp_count p" by (simp add: eq(1))
    then have "((pp_read_pos p + n) mod PIPE_BUF_SIZE + (pp_count p - n)) mod PIPE_BUF_SIZE
        = (pp_read_pos p + pp_count p) mod PIPE_BUF_SIZE"
      unfolding mod_add_left_eq by simp
    then show ?thesis using assms(1) by (auto simp: pipe_inv_def eq(2) simp del: add_diff_assoc)
  qed
  ultimately show ?thesis using eq by simp
qed

lemma write_loop:
  assumes "length (pp_buffer p) = PIPE_BUF_SIZE" "pp_write_pos p < PIPE_BUF_SIZE" "n \<le> PIPE_BUF_SIZE"
  shows "\<exists>b. fold (write_step bs) [0..<n] p =
      p\<lparr>pp_buffer := b, pp_write_pos := (pp_write_pos p + n) mod PIPE_BUF_SIZE\<rparr>
    \<and> length b = PIPE_BUF_SIZE
    \<and> (\<forall>j<PIPE_BUF_SIZE. b ! ((pp_write_pos p + j) mod PIPE_BUF_SIZE) =
         (if j < n then bs ! j else pp_buffer p ! ((pp_write_pos p + j) mod PIPE_BUF_SIZE)))"
  using assms(3)
proof (induction n)
  case 0
  then show ?case using assms by (intro exI [of _ "pp_buffer p"]) simp
next
  case (Suc n)
  then obtain b where b: "fold (write_step bs) [0..<n] p =
        p\<lparr>pp_buffer := b, pp_write_pos := (pp_write_pos p + n) mod PIPE_BUF_SIZE\<rparr>"
      "length b = PIPE_BUF_SIZE"
      "\<And>j. j < PIPE_BUF_SIZE \<Longrightarrow> b ! ((pp_write_pos p + j) mod PIPE_BUF_SIZE) =
         (if j < n then bs ! j else pp_buffer p ! ((pp_write_pos p + j) mod PIPE_BUF_SIZE))"
    by auto
  let ?w = "(pp_write_pos p + n) mod PIPE_BUF_SIZE"
  show ?case
  proof (intro exI [of _ "b[?w := bs ! n]"] conjI allI impI)
    fix j assume j: "j < PIPE_BUF_SIZE"
    then show "b[?w := bs ! n] ! ((pp_write_pos p + j) mod PIPE_BUF_SIZE) =
        (if j < Suc n then bs ! j else pp_buffer p ! ((pp_write_pos p + j) mod PIPE_BUF_SIZE))"
      using b(2) b(3) [OF j] mod_ring_eq [of n PIPE_BUF_SIZE j "pp_write_pos p"] Suc.prems
      by (auto simp: nth_list_update less_Suc_eq)
  qed (simp_all add: b(1,2) write_step_def [of bs n] mod_Suc_eq)
qed

lemma pp_write_queue:
  assumes "pipe_inv p" "pp_write p bs = (p', n)"
  shows "pipe_inv p' \<and> n = min (length bs) (PIPE_BUF_SIZE - length (pipe_queue p))
    \<and> pipe_queue p' = pipe_queue p @ take n bs
    \<and> pp_closed_read p' = pp_closed_read p \<and> pp_closed_write p' = pp_closed_write p"
proof -
  let ?N = PIPE_BUF_SIZE
  have inv: "length (pp_buffer p) = ?N" "pp_write_pos p < ?N" "pp_count p \<le> ?N"
      "pp_write_pos p = (pp_read_pos p + pp_count p) mod ?N"
    using assms(1) by (simp_all add: pipe_inv_def)
  have n: "n = min (length bs) (?N - pp_count p)"
    using assms(2) by (auto simp: pp_write_def Let_def)
  obtain b where b: "fold (write_step bs) [0..<n] p =
        p\<lparr>pp_buffer := b, pp_write_pos := (pp_write_pos p + n) mod ?N\<rparr>"
      "length b = ?N"
      "\<And>j. j < ?N \<Longrightarrow> b ! ((pp_write_pos p + j) mod ?N) =
         (if j < n then bs ! j else pp_buffer p ! ((pp_write_pos p + j) mod ?N))"
    using write_loop [OF inv(1,2), of n bs] n by fastforce
  have p': "p' = p\<lparr>pp_buffer := b, pp_write_pos := (pp_write_pos p + n) mod ?N, pp_count := pp_count p + n\<rparr>"
    using assms(2) b(1) by (auto simp: pp_write_def Let_def n)
  have "pipe_queue p' ! k = (pipe_queue p @ take n bs) ! k" if k: "k < pp_count p + n" for k
  proof (cases "k < pp_count p")
    case True
    let ?j = "?N - pp_count p + k"
    have "pp_read_pos p + pp_count p + ?j = pp_read_pos p + k + ?N" using inv(3) by simp
    then have "(pp_write_pos p + ?j) mod ?N = (pp_read_pos p + k) mod ?N"
      unfolding inv(4) mod_add_left_eq by (simp only: mod_add_self2)
    moreover have "?j < ?N" "\<not> ?j < n" using True inv(3) n by linarith+
    ultimately show ?thesis
      using b(3) [of ?j] True by (simp add: p' pipe_queue_def nth_append)
  next
    case False
    let ?j = "k - pp_count p"
    have "(pp_write_pos p + ?j) mod ?N = (pp_read_pos p + k) mod ?N"
      unfolding inv(4) mod_add_left_eq using False by simp
    moreover have "?j < ?N" "?j < n" using False k inv(3) n by linarith+
    ultimately show ?thesis
      using b(3) [of ?j] False k by (simp add: p' pipe_queue_def nth_append)
  qed
  then have "pipe_queue p' = pipe_queue p @ take n bs"
    by (intro nth_equalityI) (simp_all add: p' n)
  moreover have "pp_count p + n \<le> ?N" using n inv(3) by linarith
  then have "pipe_inv p'"
    using assms(1) b(2) by (simp add: p' pipe_inv_def mod_add_left_eq add.assoc)
  ultimately show ?thesis using n by (simp add: p')
qed

section \<open>The queue contract\<close>

text \<open>
  A byte pipe as its users see it: a queue with a capacity, from which a read takes a prefix
  and to which a write appends a prefix of its argument. The lemmas hold for every pipe that
  keeps the contract.
\<close>

datatype pipe_op = ReadOp nat | WriteOp bytes

locale byte_pipe =
  fixes q :: "'p \<Rightarrow> bytes" and inv :: "'p \<Rightarrow> bool" and cap :: nat
    and rd :: "'p \<Rightarrow> bytes \<Rightarrow> 'p \<times> bytes \<times> nat" and wr :: "'p \<Rightarrow> bytes \<Rightarrow> 'p \<times> nat"
  assumes rd_law: "inv p \<Longrightarrow> rd p buf = (p', buf', n) \<Longrightarrow>
      inv p' \<and> n = min (length buf) (length (q p)) \<and> buf' = take n (q p) @ drop n buf \<and> q p' = drop n (q p)"
    and wr_law: "inv p \<Longrightarrow> wr p bs = (p', n) \<Longrightarrow>
      inv p' \<and> n = min (length bs) (cap - length (q p)) \<and> q p' = q p @ take n bs"
begin

lemma rd_stream:
  assumes "inv p" "rd p buf = (p', buf', n)"
  shows "inv p' \<and> take n buf' @ q p' = q p"
  using rd_law [OF assms] by auto

end

text \<open>
  A run of reads (with a buffer of the given length) and writes on one pipe, which collects the
  bytes delivered and the bytes accepted.
\<close>

fun pipe_run :: "('p \<Rightarrow> bytes \<Rightarrow> 'p \<times> bytes \<times> nat) \<Rightarrow> ('p \<Rightarrow> bytes \<Rightarrow> 'p \<times> nat) \<Rightarrow> pipe_op list \<Rightarrow>
    'p \<times> bytes \<times> bytes \<Rightarrow> 'p \<times> bytes \<times> bytes" where
  "pipe_run rd wr [] s = s"
| "pipe_run rd wr (ReadOp n # ops) (p, delivered, accepted) =
     (let (p', buf, k) = rd p (replicate n 0)
      in pipe_run rd wr ops (p', delivered @ take k buf, accepted))"
| "pipe_run rd wr (WriteOp bs # ops) (p, delivered, accepted) =
     (let (p', k) = wr p bs in pipe_run rd wr ops (p', delivered, accepted @ take k bs))"

context byte_pipe
begin

lemma run_fifo:
  assumes "inv p" "delivered @ q p = accepted"
    "pipe_run rd wr ops (p, delivered, accepted) = (p', delivered', accepted')"
  shows "inv p' \<and> delivered' @ q p' = accepted'"
  using assms
proof (induction ops arbitrary: p delivered accepted)
  case Nil
  then show ?case by simp
next
  case (Cons op ops)
  show ?case
  proof (cases op)
    case (ReadOp n)
    obtain p1 buf k where r: "rd p (replicate n 0) = (p1, buf, k)" by (metis prod_cases3)
    from rd_stream [OF Cons.prems(1) r] have "inv p1" "take k buf @ q p1 = q p" by auto
    with Cons.IH [of p1 "delivered @ take k buf" accepted] Cons.prems show ?thesis
      by (simp add: ReadOp r)
  next
    case (WriteOp bs)
    obtain p1 k where w: "wr p bs = (p1, k)" by fastforce
    from wr_law [OF Cons.prems(1) w] have "inv p1" "q p1 = q p @ take k bs" by auto
    with Cons.IH [of p1 delivered "accepted @ take k bs"] Cons.prems show ?thesis
      by (simp add: WriteOp w flip: append_assoc)
  qed
qed

end

interpretation ring_pipe: byte_pipe pipe_queue pipe_inv PIPE_BUF_SIZE pp_read pp_write
  by unfold_locales (use pp_read_queue pp_write_queue in blast)+

section \<open>Table invariant\<close>

definition pipe_table_inv :: "pipe_table \<Rightarrow> bool" where
  "pipe_table_inv t \<longleftrightarrow> (\<forall>i p. pt_pipes t i = Some p \<longrightarrow> pipe_inv p)"

lemma pipe_table_inv_upd [inv_intros]:
  "pipe_table_inv t \<Longrightarrow> pipe_inv p \<Longrightarrow> pipe_table_inv (t\<lparr>pt_pipes := (pt_pipes t)(i \<mapsto> p)\<rparr>)"
  by (simp add: pipe_table_inv_def)

lemma pipe_table_ops_inv [inv_intros]:
  assumes "pipe_table_inv t"
  shows "pipe_table_inv (fst (create_pipe t))" "pipe_table_inv (snd (pipe_read i buf t))"
    "pipe_table_inv (snd (pipe_write i bs t))" "pipe_table_inv (close_write i t)"
    "pipe_table_inv (close_read i t)" "pipe_table_inv (maybe_destroy i t)"
proof -
  have p: "pipe_inv p" if "pt_pipes t i = Some p" for p
    using assms that by (simp add: pipe_table_inv_def)
  then have rd: "pipe_inv p'" if "pt_pipes t i = Some p" "pp_read p buf = (p', buf', n)" for p p' buf' n
    using pp_read_queue that by blast
  have wr: "pipe_inv p'" if "pt_pipes t i = Some p" "pp_write p bs = (p', n)" for p p' n
    using pp_write_queue p that by blast
  show "pipe_table_inv (fst (create_pipe t))"
    using assms by (auto simp: pipe_table_inv_def create_pipe_def Let_def pipe_inv_new)
  show "pipe_table_inv (snd (pipe_read i buf t))"
    using assms rd by (auto simp: pipe_table_inv_def pipe_read_def split: option.splits prod.splits)
  show "pipe_table_inv (snd (pipe_write i bs t))"
    using assms wr by (auto simp: pipe_table_inv_def pipe_write_def split: option.splits prod.splits)
  show "pipe_table_inv (close_write i t)" "pipe_table_inv (close_read i t)"
      "pipe_table_inv (maybe_destroy i t)"
    using assms p
    by (auto simp: pipe_table_inv_def close_write_def close_read_def maybe_destroy_def pipe_inv_def
        split: option.splits)
qed

section \<open>Properties of pipes\<close>

text \<open>
  C13: in every run of reads and writes on a new pipe, the bytes delivered followed by the bytes
  still in the ring are exactly the bytes the writes accepted, in order.
\<close>

theorem pipe_fifo:
  "case pipe_run pp_read pp_write ops (pipe_new, [], []) of (p, delivered, accepted) \<Rightarrow>
     delivered @ pipe_queue p = accepted"
  using ring_pipe.run_fifo [of pipe_new "[]" "[]" ops] by (auto simp: pipe_inv_new)

text \<open>
  C14: a write to a live pipe whose reader is open accepts as many bytes as the ring has room for
  and appends them, and nothing else in the table changes; a read then removes from the front.
  A write to a pipe without reader is refused and a read of a drained pipe without writer reports
  the end of the stream.
\<close>

theorem pipe_table_refines_queue:
  assumes "pipe_table_inv t" "pt_pipes t i = Some p"
  shows "(if pp_closed_read p then pipe_write i bs t = (Inl ''Broken pipe'', t)
      else (let n = min (length bs) (PIPE_BUF_SIZE - length (pipe_queue p)) in
        \<exists>p'. pipe_write i bs t = (Inr n, t\<lparr>pt_pipes := (pt_pipes t)(i \<mapsto> p')\<rparr>)
          \<and> pipe_queue p' = pipe_queue p @ take n bs))
    \<and> (if pipe_queue p = [] \<and> pp_closed_write p then pipe_read i buf t = (Inr (buf, 0), t)
      else (let n = min (length buf) (length (pipe_queue p)) in
        \<exists>p'. pipe_read i buf t = (Inr (take n (pipe_queue p) @ drop n buf, n),
            t\<lparr>pt_pipes := (pt_pipes t)(i \<mapsto> p')\<rparr>)
          \<and> pipe_queue p' = drop n (pipe_queue p)))"
proof -
  have inv: "pipe_inv p" using assms by (simp add: pipe_table_inv_def)
  obtain pw n where w: "pp_write p bs = (pw, n)" by fastforce
  obtain pr b k where r: "pp_read p buf = (pr, b, k)" by (metis prod_cases3)
  have empty: "(pipe_queue p = []) = (pp_count p = 0)"
    using length_pipe_queue [of p] by (metis length_0_conv)
  show ?thesis
    using pp_write_queue [OF inv w] pp_read_queue [OF inv r] w r assms(2)
    by (auto simp: pipe_write_def pipe_read_def empty Let_def)
qed

theorem pipe_table_refines_queue_witness:
  "snd (pipe_write 1 [7, 8] (fst (create_pipe pipe_table_new))) \<noteq> fst (create_pipe pipe_table_new)"
proof -
  let ?t = "fst (create_pipe pipe_table_new)"
  have t: "pt_pipes ?t 1 = Some pipe_new"
    by (simp add: create_pipe_def pipe_table_new_def)
  have closed: "\<not> pp_closed_read pipe_new" by (simp add: pipe_new_def)
  have "pipe_table_inv ?t"
    by (rule pipe_table_ops_inv) (simp add: pipe_table_inv_def pipe_table_new_def)
  from pipe_table_refines_queue [OF this t, of "[7, 8]" "[]"]
  obtain p' where p': "pipe_write 1 [7, 8] ?t = (Inr 2, ?t\<lparr>pt_pipes := (pt_pipes ?t)(1 \<mapsto> p')\<rparr>)"
      "pipe_queue p' = [7, 8]"
    by (auto simp: closed PIPE_BUF_SIZE_def numeral_2_eq_2)
  then have "p' \<noteq> pipe_new" by auto
  then show ?thesis
    using t p'(1) by (auto dest: arg_cong [of _ _ "\<lambda>t. pt_pipes t 1"])
qed

end
