(* ===== verification/Proc_Fd.thy ===== *)
theory Proc_Fd
  imports Handles Proc_Pipe
begin

text \<open>
  Descriptor tables of processes (\<open>kernel/src/process/fd.rs\<close>) and the POSIX layer above them
  (\<open>posix.rs\<close>): working directories, seeking, opening with flags, readiness and sockets. The file
  system and the TCP stack are parameters of the operations that call them.
\<close>

unbundle bit_operations_syntax

section \<open>Descriptor tables\<close>

datatype fd_kind =
  FdFile string u64
| FdPipeRead u64
| FdPipeWrite u64
| FdStdio
| FdTcpSocket u64

record fd_flags =
  fd_readable :: bool
  fd_writable :: bool

definition read_only :: fd_flags where
  "read_only = \<lparr>fd_readable = True, fd_writable = False\<rparr>"

definition write_only :: fd_flags where
  "write_only = \<lparr>fd_readable = False, fd_writable = True\<rparr>"

definition read_write :: fd_flags where
  "read_write = \<lparr>fd_readable = True, fd_writable = True\<rparr>"

record process_fd =
  pf_kind :: fd_kind
  pf_flags :: fd_flags

record fd_table =
  ft_fds :: "u64 \<rightharpoonup> process_fd"
  ft_next_fd :: u64

definition fd_table_new :: fd_table where
  "fd_table_new =
     \<lparr>ft_fds = [0 \<mapsto> \<lparr>pf_kind = FdStdio, pf_flags = read_only\<rparr>,
                1 \<mapsto> \<lparr>pf_kind = FdStdio, pf_flags = write_only\<rparr>,
                2 \<mapsto> \<lparr>pf_kind = FdStdio, pf_flags = write_only\<rparr>],
      ft_next_fd = 3\<rparr>"

definition alloc_fd :: "fd_kind \<Rightarrow> fd_flags \<Rightarrow> fd_table \<Rightarrow> u64 \<times> fd_table" where
  "alloc_fd kind flags t =
     (let fd = ft_next_fd t in
      (fd, t\<lparr>ft_fds := (ft_fds t)(fd \<mapsto> \<lparr>pf_kind = kind, pf_flags = flags\<rparr>), ft_next_fd := fd + 1\<rparr>))"

definition fd_get :: "u64 \<Rightarrow> fd_table \<Rightarrow> process_fd option" where
  "fd_get fd t = ft_fds t fd"

definition fd_close :: "u64 \<Rightarrow> fd_table \<Rightarrow> process_fd option \<times> fd_table" where
  "fd_close fd t = (ft_fds t fd, t\<lparr>ft_fds := (ft_fds t)(fd := None)\<rparr>)"

definition dup2 :: "u64 \<Rightarrow> u64 \<Rightarrow> fd_table \<Rightarrow> (string + unit) \<times> fd_table" where
  "dup2 old_fd new_fd t =
     (case ft_fds t old_fd of
        None \<Rightarrow> (Inl ''Bad fd'', t)
      | Some entry \<Rightarrow>
          let t = t\<lparr>ft_fds := (ft_fds t)(new_fd \<mapsto> entry)\<rparr>;
              t = (if ft_next_fd t \<le> new_fd then t\<lparr>ft_next_fd := new_fd + 1\<rparr> else t)
          in (Inr (), t))"

definition clone_table :: "fd_table \<Rightarrow> fd_table" where
  "clone_table t = \<lparr>ft_fds = ft_fds t, ft_next_fd = ft_next_fd t\<rparr>"


definition fd_count :: "fd_table \<Rightarrow> nat" where
  "fd_count t = map_len (ft_fds t)"

fun fd_desc :: "fd_kind \<Rightarrow> string" where
  "fd_desc (FdFile path off) = ''file:'' @ path @ '' @'' @ show_nat (unat off)"
| "fd_desc (FdPipeRead i) = ''pipe-r:'' @ show_nat (unat i)"
| "fd_desc (FdPipeWrite i) = ''pipe-w:'' @ show_nat (unat i)"
| "fd_desc FdStdio = ''stdio''"
| "fd_desc (FdTcpSocket i) = ''tcp:'' @ show_nat (unat i)"

definition fd_table_list :: "fd_table \<Rightarrow> (u64 \<times> string) list" where
  "fd_table_list t = map (\<lambda>fd. (fd, fd_desc (pf_kind (the (ft_fds t fd))))) (map_keys (ft_fds t))"

type_synonym proc_fds = "u64 \<rightharpoonup> fd_table"

definition create_fd_table :: "u64 \<Rightarrow> proc_fds \<Rightarrow> proc_fds" where
  "create_fd_table pid m = m(pid \<mapsto> fd_table_new)"

definition destroy_fd_table :: "u64 \<Rightarrow> proc_fds \<Rightarrow> proc_fds" where
  "destroy_fd_table pid m = m(pid := None)"

definition clone_fd_table :: "u64 \<Rightarrow> u64 \<Rightarrow> proc_fds \<Rightarrow> proc_fds" where
  "clone_fd_table src dst m =
     (case m src of None \<Rightarrow> m | Some t \<Rightarrow> m(dst \<mapsto> clone_table t))"

definition with_fd_table :: "u64 \<Rightarrow> (fd_table \<Rightarrow> 'r \<times> fd_table) \<Rightarrow> proc_fds \<Rightarrow> (string + 'r) \<times> proc_fds" where
  "with_fd_table pid f m =
     (case m pid of
        None \<Rightarrow> (Inl ''No FD table for process'', m)
      | Some t \<Rightarrow> (case f t of (r, t) \<Rightarrow> (Inr r, m(pid \<mapsto> t))))"

definition fd_list :: "u64 \<Rightarrow> proc_fds \<Rightarrow> (u64 \<times> string) list" where
  "fd_list pid m = (case m pid of None \<Rightarrow> [] | Some t \<Rightarrow> fd_table_list t)"

definition fd_init :: "proc_fds \<Rightarrow> proc_fds" where
  "fd_init m = create_fd_table 0 m"

section \<open>The POSIX layer\<close>

definition O_RDONLY :: u64 where "O_RDONLY = 0"
definition O_WRONLY :: u64 where "O_WRONLY = 1"
definition O_RDWR :: u64 where "O_RDWR = 2"
definition O_CREAT :: u64 where "O_CREAT = 0x40"
definition O_TRUNC :: u64 where "O_TRUNC = 0x200"
definition O_APPEND :: u64 where "O_APPEND = 0x400"
definition SEEK_SET :: u64 where "SEEK_SET = 0"
definition SEEK_CUR :: u64 where "SEEK_CUR = 1"
definition SEEK_END :: u64 where "SEEK_END = 2"
definition AF_INET :: u64 where "AF_INET = 2"
definition SOCK_STREAM :: u64 where "SOCK_STREAM = 1"

type_synonym cwd_table = "u64 \<rightharpoonup> string"

definition init_cwd :: "u64 \<Rightarrow> cwd_table \<Rightarrow> cwd_table" where
  "init_cwd pid m = m(pid \<mapsto> ''/'')"

definition get_cwd :: "u64 \<Rightarrow> cwd_table \<Rightarrow> string" where
  "get_cwd pid m = (case m pid of None \<Rightarrow> ''/'' | Some d \<Rightarrow> d)"

definition destroy_cwd :: "u64 \<Rightarrow> cwd_table \<Rightarrow> cwd_table" where
  "destroy_cwd pid m = m(pid := None)"

definition resolve_cwd_path :: "u64 \<Rightarrow> string \<Rightarrow> cwd_table \<Rightarrow> string" where
  "resolve_cwd_path pid path m =
     (if path \<noteq> [] \<and> hd path = CHR ''/'' then path
      else let cwd = get_cwd pid m in
        if cwd \<noteq> [] \<and> last cwd = CHR ''/'' then cwd @ path else cwd @ ''/'' @ path)"

text \<open>\<open>is_dir\<close> is whether \<open>vfs::readdir\<close> succeeds on a path.\<close>

definition set_cwd :: "(string \<Rightarrow> bool) \<Rightarrow> u64 \<Rightarrow> string \<Rightarrow> cwd_table \<Rightarrow> (string + unit) \<times> cwd_table" where
  "set_cwd is_dir pid path m =
     (let abs = resolve_cwd_path pid path m in
      if is_dir abs then (Inr (), m(pid \<mapsto> abs)) else (Inl ''No such directory'', m))"

text \<open>
  \<open>size_of\<close> is the file size \<open>vfs::stat\<close> reports, \<open>None\<close> where it fails. The offset is the bit
  pattern of the \<open>i64\<close>; the sum of two \<open>i64\<close> is the sum of their patterns.
\<close>

definition lseek_fd :: "(string \<Rightarrow> u64 option) \<Rightarrow> u64 \<Rightarrow> u64 \<Rightarrow> u64 \<Rightarrow> u64 \<Rightarrow> proc_fds \<Rightarrow> (string + u64) \<times> proc_fds" where
  "lseek_fd size_of pid fd offset whence m =
     (case m pid of
        None \<Rightarrow> (Inl ''No FD table for process'', m)
      | Some t \<Rightarrow> (case ft_fds t fd of
          None \<Rightarrow> (Inl ''Invalid file descriptor'', m)
        | Some entry \<Rightarrow> (case pf_kind entry of
            FdFile path file_offset \<Rightarrow>
              let file_size = (case size_of path of None \<Rightarrow> 0 | Some n \<Rightarrow> n);
                  set_to = (\<lambda>new_offset. (Inr new_offset, m(pid \<mapsto> t\<lparr>ft_fds := (ft_fds t)
                    (fd \<mapsto> entry\<lparr>pf_kind := FdFile path new_offset\<rparr>)\<rparr>)))
              in if whence = SEEK_SET then set_to offset
                 else if whence = SEEK_CUR then set_to (file_offset + offset)
                 else if whence = SEEK_END then set_to (file_size + offset)
                 else (Inl ''Invalid whence'', m)
          | _ \<Rightarrow> (Inl ''Cannot seek on this FD type'', m))))"

text \<open>
  \<open>exists\<close> and \<open>create_and_write\<close> are the operations of the file system, on its state.
\<close>

definition open_with_flags ::
  "(string \<Rightarrow> 'fs \<Rightarrow> bool) \<Rightarrow> (string \<Rightarrow> bytes \<Rightarrow> 'fs \<Rightarrow> (string + unit) \<times> 'fs)
   \<Rightarrow> string \<Rightarrow> u64 \<Rightarrow> 'fs \<Rightarrow> (string + fd_kind \<times> fd_flags) \<times> 'fs" where
  "open_with_flags exists create_and_write path flags fs =
     (let access = flags AND 0x3;
          create = flags AND O_CREAT \<noteq> 0;
          trunc = flags AND O_TRUNC \<noteq> 0;
          existed = exists path fs;
          fd_flags = (if access = O_RDONLY then read_only
            else if access = O_WRONLY then write_only
            else if access = O_RDWR then read_write else read_only)
      in sbind (if \<not> existed \<and> create then create_and_write path [] fs
                else if \<not> existed then (Inl ''File not found'', fs) else (Inr (), fs))
         (\<lambda>_ fs. sbind (if trunc \<and> existed then create_and_write path [] fs else (Inr (), fs))
         (\<lambda>_ fs. (Inr (FdFile path 0, fd_flags), fs))))"

definition fd_ready :: "(u64 \<Rightarrow> bool) \<Rightarrow> (u64 \<Rightarrow> bool) \<Rightarrow> fd_kind \<Rightarrow> bool" where
  "fd_ready pipe_ok tcp_ok kind =
     (case kind of
        FdFile _ _ \<Rightarrow> True
      | FdStdio \<Rightarrow> True
      | FdPipeRead i \<Rightarrow> pipe_ok i
      | FdPipeWrite _ \<Rightarrow> True
      | FdTcpSocket i \<Rightarrow> tcp_ok i)"

definition select_fds :: "(u64 \<Rightarrow> bool) \<Rightarrow> (u64 \<Rightarrow> bool) \<Rightarrow> u64 \<Rightarrow> u64 list \<Rightarrow> proc_fds \<Rightarrow> u64 list" where
  "select_fds pipe_ok tcp_ok pid fds m =
     (case m pid of
        None \<Rightarrow> []
      | Some t \<Rightarrow> filter (\<lambda>fd. case ft_fds t fd of
            None \<Rightarrow> False | Some entry \<Rightarrow> fd_ready pipe_ok tcp_ok (pf_kind entry)) fds)"

definition posix_socket :: "u64 \<Rightarrow> u64 \<Rightarrow> u64 \<Rightarrow> proc_fds \<Rightarrow> (string + u64) \<times> proc_fds" where
  "posix_socket pid domain type m =
     (if domain \<noteq> AF_INET \<or> type \<noteq> SOCK_STREAM
      then (Inl ''Only AF_INET / SOCK_STREAM supported'', m)
      else case m pid of
          None \<Rightarrow> (Inl ''No FD table for process'', m)
        | Some t \<Rightarrow> (case alloc_fd (FdTcpSocket 0) read_write t of (fd, t) \<Rightarrow> (Inr fd, m(pid \<mapsto> t))))"

text \<open>The result of \<open>tcp::connect\<close> is a parameter; it is computed before the descriptor is looked up.\<close>

definition posix_connect :: "(string + u64) \<Rightarrow> u64 \<Rightarrow> u64 \<Rightarrow> proc_fds \<Rightarrow> (string + unit) \<times> proc_fds" where
  "posix_connect tcp_connect pid fd m =
     (case tcp_connect of
        Inl e \<Rightarrow> (Inl e, m)
      | Inr conn_id \<Rightarrow> (case m pid of
          None \<Rightarrow> (Inl ''No FD table for process'', m)
        | Some t \<Rightarrow> (case ft_fds t fd of
            None \<Rightarrow> (Inl ''Invalid file descriptor'', m)
          | Some entry \<Rightarrow> (case pf_kind entry of
              FdTcpSocket _ \<Rightarrow> (Inr (), m(pid \<mapsto> t\<lparr>ft_fds := (ft_fds t)
                (fd \<mapsto> entry\<lparr>pf_kind := FdTcpSocket conn_id\<rparr>)\<rparr>))
            | _ \<Rightarrow> (Inl ''Not a socket'', m)))))"

definition socket_conn :: "u64 \<Rightarrow> u64 \<Rightarrow> proc_fds \<Rightarrow> string + u64" where
  "socket_conn pid fd m =
     rbind (ok_or ''No FD table for process'' (m pid)) (\<lambda>t.
     rbind (ok_or ''Invalid file descriptor'' (ft_fds t fd)) (\<lambda>entry.
     case pf_kind entry of
       FdTcpSocket conn_id \<Rightarrow> if conn_id = 0 then Inl ''Socket not connected'' else Inr conn_id
     | _ \<Rightarrow> Inl ''Not a socket''))"

definition posix_send :: "(u64 \<Rightarrow> bytes \<Rightarrow> string + u64) \<Rightarrow> u64 \<Rightarrow> u64 \<Rightarrow> bytes \<Rightarrow> proc_fds \<Rightarrow> string + u64" where
  "posix_send tcp_send pid fd buf m = rbind (socket_conn pid fd m) (\<lambda>conn. tcp_send conn buf)"

definition posix_recv :: "(u64 \<Rightarrow> string + bytes) \<Rightarrow> u64 \<Rightarrow> u64 \<Rightarrow> proc_fds \<Rightarrow> string + bytes" where
  "posix_recv tcp_recv pid fd m = rbind (socket_conn pid fd m) tcp_recv"

section \<open>Descriptors are fresh\<close>












text \<open>
  Duplication onto the largest descriptor number wraps the counter to zero, and the next
  object that is opened replaces standard input.
\<close>

theorem dup2_wraps_counter:
  "case alloc_fd (FdFile path 0) read_only (snd (dup2 1 (- 1) fd_table_new)) of (fd, t) \<Rightarrow>
     fd = 0 \<and> fd_get 0 t = Some \<lparr>pf_kind = FdFile path 0, pf_flags = read_only\<rparr>"
  by (simp add: dup2_def fd_table_new_def alloc_fd_def fd_get_def Let_def)

text \<open>
  The tables of parent and child are separate after a fork: the child starts with every
  descriptor of the parent, and no later operation on the one table changes the other.
\<close>

theorem fork_fd_tables:
  assumes "m parent = Some t" "parent \<noteq> child"
  shows "map_option ft_fds (clone_fd_table parent child m child) = Some (ft_fds t)
    \<and> snd (with_fd_table child f (clone_fd_table parent child m)) parent = Some t
    \<and> snd (with_fd_table parent f (clone_fd_table parent child m)) child = Some (clone_table t)
    \<and> (\<forall>p. p \<noteq> parent \<and> p \<noteq> child \<longrightarrow> clone_fd_table parent child m p = m p)"
  using assms by (auto simp: clone_fd_table_def with_fd_table_def clone_table_def split: prod.splits)

theorem fork_fd_tables_witness:
  "snd (with_fd_table 8 (fd_close 0) (clone_fd_table 7 8 [7 \<mapsto> fd_table_new])) 7 = Some fd_table_new"
  using fork_fd_tables [of "[7 \<mapsto> fd_table_new]" 7 fd_table_new 8 "fd_close 0"] by simp

text \<open>
  Seeking is exact on files and refused elsewhere: relative to the start, the current offset
  or the end, modulo the word size, and only the offset of the one descriptor changes.
\<close>

theorem lseek_exact:
  assumes "m pid = Some t" "ft_fds t fd = Some \<lparr>pf_kind = FdFile path cur, pf_flags = fl\<rparr>"
  shows "fst (lseek_fd size_of pid fd off whence m) =
      (if whence = SEEK_SET then Inr off else if whence = SEEK_CUR then Inr (cur + off)
       else if whence = SEEK_END then Inr (case size_of path of None \<Rightarrow> off | Some n \<Rightarrow> n + off)
       else Inl ''Invalid whence'')
    \<and> (fst (lseek_fd size_of pid fd off whence m) = Inr new \<longrightarrow>
        snd (lseek_fd size_of pid fd off whence m) = m(pid \<mapsto> t\<lparr>ft_fds := (ft_fds t)
          (fd \<mapsto> \<lparr>pf_kind = FdFile path new, pf_flags = fl\<rparr>)\<rparr>))"
  using assms by (simp add: lseek_fd_def Let_def split: option.splits)

theorem lseek_exact_witness:
  "fst (lseek_fd (\<lambda>_. Some 100) 1 3 5 SEEK_END [1 \<mapsto> snd (alloc_fd (FdFile ''f'' 0) read_only fd_table_new)])
   = Inr 105"
  using lseek_exact [of "[1 \<mapsto> snd (alloc_fd (FdFile ''f'' 0) read_only fd_table_new)]" 1
      "snd (alloc_fd (FdFile ''f'' 0) read_only fd_table_new)" 3 "''f''" 0 read_only "\<lambda>_. Some 100" 5 SEEK_END]
  by (simp add: alloc_fd_def fd_table_new_def SEEK_SET_def SEEK_CUR_def SEEK_END_def Let_def)

end
