(* ===== verification/Proc_Thread.thy ===== *)
theory Proc_Thread
  imports Smart_Prelude
begin

text \<open>
  Threads and the context switch (\<open>kernel/src/process/thread.rs\<close>): the thread record, the frames
  that \<open>new\<close>, \<open>new_large\<close> and \<open>new_user\<close> prepare on a fresh stack, and the instruction sequences of
  \<open>thread_switch\<close> and \<open>switch_to_user\<close> on a machine with the registers they touch. Memory is a
  function from the addresses of aligned quadwords. The address of a freshly allocated stack is a
  parameter of the constructors, the stack itself lives in the memory.
\<close>

unbundle bit_operations_syntax

section \<open>Threads\<close>

definition THREAD_STACK_SIZE :: u64 where "THREAD_STACK_SIZE = 4096 * 32"
definition THREAD_STACK_SIZE_LARGE :: u64 where "THREAD_STACK_SIZE_LARGE = 4096 * 128"
definition USER_CODE_SEL :: u64 where "USER_CODE_SEL = push_bit 3 4 OR 3"
definition USER_DATA_SEL :: u64 where "USER_DATA_SEL = push_bit 3 3 OR 3"

datatype thread_state = Ready | Running | Blocked | Dead

record thread =
  t_tid :: u64
  t_pid :: u64
  t_name :: string
  t_state :: thread_state
  t_stack_ptr :: u64
  t_kernel_stack_ptr :: u64
  t_priority :: u8
  t_is_user :: bool
  t_cr3 :: u64
  t_canary :: u64

type_synonym memory = "u64 \<Rightarrow> u64"

fun write_frame :: "u64 \<Rightarrow> u64 list \<Rightarrow> memory \<Rightarrow> memory" where
  "write_frame sp [] m = m"
| "write_frame sp (w # ws) m = write_frame (sp + 8) ws (m(sp := w))"

definition gen_canary :: "u64 \<Rightarrow> u64 \<Rightarrow> u64" where
  "gen_canary ticks tid = (ticks * 0x9e3779b97f4a7c15 + tid) * 0x6c62272e07bb0142"

definition kernel_frame :: "u64 \<Rightarrow> u64 \<Rightarrow> u64 list" where
  "kernel_frame entry trampoline = [entry, 0, 0, 0, 0, 0, trampoline]"

definition user_frame :: "u64 \<Rightarrow> u64 \<Rightarrow> u64 \<Rightarrow> u64 list" where
  "user_frame rip rflags rsp = replicate 15 0 @ [rip, USER_CODE_SEL, rflags, rsp, USER_DATA_SEL]"

text \<open>\<open>stack\<close> is the address of the vector the constructor allocates, \<open>ticks\<close> the timer.\<close>

definition thread_on :: "u64 \<Rightarrow> u64 \<Rightarrow> u64 \<Rightarrow> u64 \<Rightarrow> string \<Rightarrow> u64 \<Rightarrow> u8 \<Rightarrow> u64 \<Rightarrow> memory \<Rightarrow> thread \<times> memory" where
  "thread_on stack_size stack ticks trampoline name entry priority tid m =
     (let raw_top = stack + stack_size;
          stack_top = raw_top AND NOT 15;
          initial_sp = stack_top - 8 * 7
      in (\<lparr>t_tid = tid, t_pid = 0, t_name = name, t_state = Ready, t_stack_ptr = initial_sp,
           t_kernel_stack_ptr = 0, t_priority = priority, t_is_user = False, t_cr3 = 0,
           t_canary = gen_canary ticks tid\<rparr>,
          write_frame initial_sp (kernel_frame entry trampoline) m))"

definition thread_new :: "u64 \<Rightarrow> u64 \<Rightarrow> u64 \<Rightarrow> string \<Rightarrow> u64 \<Rightarrow> u8 \<Rightarrow> u64 \<Rightarrow> memory \<Rightarrow> thread \<times> memory" where
  "thread_new = thread_on THREAD_STACK_SIZE"

definition thread_new_large :: "u64 \<Rightarrow> u64 \<Rightarrow> u64 \<Rightarrow> string \<Rightarrow> u64 \<Rightarrow> u8 \<Rightarrow> u64 \<Rightarrow> memory \<Rightarrow> thread \<times> memory" where
  "thread_new_large = thread_on THREAD_STACK_SIZE_LARGE"

definition boot_thread :: thread where
  "boot_thread = \<lparr>t_tid = 0, t_pid = 0, t_name = ''kernel_main'', t_state = Running, t_stack_ptr = 0,
     t_kernel_stack_ptr = 0, t_priority = 0, t_is_user = False, t_cr3 = 0,
     t_canary = 0xCAFEBABEDEAD0000\<rparr>"

definition thread_new_user ::
  "u64 \<Rightarrow> u64 \<Rightarrow> string \<Rightarrow> u64 \<Rightarrow> u64 \<Rightarrow> u64 \<Rightarrow> u64 \<Rightarrow> u8 \<Rightarrow> u64 \<Rightarrow> memory \<Rightarrow> thread \<times> memory" where
  "thread_new_user stack ticks name pid entry_rip user_rsp cr3 priority tid m =
     (let raw_top = stack + THREAD_STACK_SIZE;
          kernel_stack_top = raw_top AND NOT 15;
          initial_sp = kernel_stack_top - 20 * 8
      in (\<lparr>t_tid = tid, t_pid = pid, t_name = name, t_state = Ready, t_stack_ptr = initial_sp,
           t_kernel_stack_ptr = kernel_stack_top, t_priority = priority, t_is_user = True, t_cr3 = cr3,
           t_canary = gen_canary ticks tid\<rparr>,
          write_frame initial_sp (user_frame entry_rip 0x202 user_rsp) m))"

section \<open>The context switch\<close>

datatype reg = RAX | RBX | RCX | RDX | RSI | RDI | RBP | R8 | R9 | R10 | R11 | R12 | R13 | R14 | R15

record cpu =
  c_gpr :: "reg \<Rightarrow> u64"
  c_rsp :: u64
  c_rip :: u64
  c_rflags :: u64
  c_cs :: u64
  c_ss :: u64
  c_cr3 :: u64
  c_mem :: memory

definition push_reg :: "reg \<Rightarrow> cpu \<Rightarrow> cpu" where
  "push_reg r c = c\<lparr>c_rsp := c_rsp c - 8, c_mem := (c_mem c)(c_rsp c - 8 := c_gpr c r)\<rparr>"

definition pop_reg :: "reg \<Rightarrow> cpu \<Rightarrow> cpu" where
  "pop_reg r c = c\<lparr>c_gpr := (c_gpr c)(r := c_mem c (c_rsp c)), c_rsp := c_rsp c + 8\<rparr>"

definition ret_instr :: "cpu \<Rightarrow> cpu" where
  "ret_instr c = c\<lparr>c_rip := c_mem c (c_rsp c), c_rsp := c_rsp c + 8\<rparr>"

definition iretq_instr :: "cpu \<Rightarrow> cpu" where
  "iretq_instr c = (let sp = c_rsp c; m = c_mem c in
     c\<lparr>c_rip := m sp, c_cs := m (sp + 8), c_rflags := m (sp + 16), c_rsp := m (sp + 24), c_ss := m (sp + 32)\<rparr>)"

definition callee_saved :: "reg list" where
  "callee_saved = [R15, R14, R13, R12, RBP, RBX]"

definition save_context :: "u64 \<Rightarrow> cpu \<Rightarrow> cpu" where
  "save_context old_sp c =
     (let c = fold push_reg callee_saved c in c\<lparr>c_mem := (c_mem c)(old_sp := c_rsp c)\<rparr>)"

definition thread_switch :: "u64 \<Rightarrow> u64 \<Rightarrow> cpu \<Rightarrow> cpu" where
  "thread_switch old_sp new_sp c =
     (let c = save_context old_sp c;
          c = c\<lparr>c_rsp := new_sp\<rparr>;
          c = fold pop_reg [RBX, RBP, R12, R13, R14, R15] c
      in ret_instr c)"

definition switch_to_user :: "u64 \<Rightarrow> u64 \<Rightarrow> u64 \<Rightarrow> cpu \<Rightarrow> cpu" where
  "switch_to_user old_sp new_sp new_cr3 c =
     (let c = save_context old_sp c;
          c = c\<lparr>c_rsp := new_sp\<rparr>;
          c = (if new_cr3 \<noteq> 0 then c\<lparr>c_cr3 := new_cr3\<rparr> else c);
          c = fold pop_reg [R15, R14, R13, R12, R11, R10, R9, R8, RBP, RDI, RSI, RDX, RCX, RBX, RAX] c
      in iretq_instr c)"

section \<open>Frames\<close>

lemmas push_pop = push_reg_def pop_reg_def callee_saved_def save_context_def ret_instr_def
  iretq_instr_def

text \<open>The addresses that saving a context writes: six quadwords below the stack pointer and the slot.\<close>

definition save_area :: "u64 \<Rightarrow> cpu \<Rightarrow> u64 set" where
  "save_area old_sp c =
     {c_rsp c - 8, c_rsp c - 16, c_rsp c - 24, c_rsp c - 32, c_rsp c - 40, c_rsp c - 48, old_sp}"

lemma save_context_mem:
  "a \<notin> save_area old_sp c \<Longrightarrow> c_mem (save_context old_sp c) a = c_mem c a"
  by (simp add: push_pop save_area_def Let_def)

lemma save_context_saved:
  assumes "old_sp \<notin> {c_rsp c - 8, c_rsp c - 16, c_rsp c - 24, c_rsp c - 32, c_rsp c - 40, c_rsp c - 48}"
  shows "map (c_mem (save_context old_sp c)) [c_rsp c - 48, c_rsp c - 40, c_rsp c - 32, c_rsp c - 24,
      c_rsp c - 16, c_rsp c - 8] = map (c_gpr c) [RBX, RBP, R12, R13, R14, R15]
    \<and> c_mem (save_context old_sp c) old_sp = c_rsp c - 48"
proof -
  have "c_rsp c - 8 \<noteq> old_sp" "c_rsp c - 16 \<noteq> old_sp" "c_rsp c - 24 \<noteq> old_sp" "c_rsp c - 32 \<noteq> old_sp"
    "c_rsp c - 40 \<noteq> old_sp" "c_rsp c - 48 \<noteq> old_sp" using assms by auto
  then show ?thesis by (simp add: push_pop Let_def)
qed

text \<open>The \<open>n\<close> quadwords of the memory from an address on, and their addresses.\<close>

definition frame_at :: "u64 \<Rightarrow> nat \<Rightarrow> memory \<Rightarrow> u64 list" where
  "frame_at sp n m = map (\<lambda>i. m (sp + 8 * of_nat i)) [0..<n]"

definition frame_area :: "u64 \<Rightarrow> nat \<Rightarrow> u64 set" where
  "frame_area sp n = (\<lambda>i. sp + 8 * of_nat i) ` {0..<n}"

lemma frame_at_cong: "(\<And>a. a \<in> frame_area sp n \<Longrightarrow> m a = m' a) \<Longrightarrow> frame_at sp n m = frame_at sp n m'"
  by (simp add: frame_at_def frame_area_def)

lemma slot_distinct: "i < j \<Longrightarrow> j < 2 ^ 61 \<Longrightarrow> sp + 8 * of_nat i \<noteq> sp + 8 * (of_nat j :: u64)"
proof
  assume ij: "i < j" "j < 2 ^ 61" and eq: "sp + 8 * of_nat i = sp + 8 * (of_nat j :: u64)"
  from eq have "(of_nat (8 * i) :: u64) = of_nat (8 * j)" by simp
  moreover have "8 * i < 2 ^ LENGTH(64)" "8 * j < 2 ^ LENGTH(64)" using ij by simp_all
  ultimately have "8 * i = 8 * j" by (metis unat_of_nat_less)
  with ij show False by simp
qed

lemma write_frame_other: "a \<notin> frame_area sp (length ws) \<Longrightarrow> write_frame sp ws m a = m a"
proof (induction ws arbitrary: sp m)
  case (Cons w ws)
  have "frame_area sp (length (w # ws)) = insert sp (frame_area (sp + 8) (length ws))"
    by (auto simp: frame_area_def image_iff atLeast0LessThan lessThan_Suc_eq_insert_0 algebra_simps)
  with Cons show ?case by simp
qed simp

lemma frame_at_write_frame: "length ws < 2 ^ 61 \<Longrightarrow> frame_at sp (length ws) (write_frame sp ws m) = ws"
proof (induction ws arbitrary: sp m)
  case (Cons w ws)
  have "sp \<notin> frame_area (sp + 8) (length ws)"
    using slot_distinct [of 0 "Suc i" sp for i] Cons.prems
    by (auto simp: frame_area_def algebra_simps)
  then have "write_frame (sp + 8) ws (m(sp := w)) sp = w" by (simp add: write_frame_other)
  moreover have "frame_at sp (Suc n) f = f sp # frame_at (sp + 8) n f" for n f
    by (simp only: frame_at_def map_upt_Suc) (simp add: algebra_simps)
  ultimately show ?case using Cons by simp
qed (simp add: frame_at_def)

lemma thread_switch_eval:
  "thread_switch q sp c = (let m = c_mem (save_context q c) in
     c\<lparr>c_gpr := (c_gpr c)(RBX := m sp, RBP := m (sp + 8), R12 := m (sp + 16), R13 := m (sp + 24),
          R14 := m (sp + 32), R15 := m (sp + 40)),
       c_rsp := sp + 56, c_rip := m (sp + 48), c_mem := m\<rparr>)"
  by (simp add: thread_switch_def push_pop Let_def algebra_simps)

lemma frame_at_7: "frame_at sp 7 m = [m sp, m (sp + 8), m (sp + 16), m (sp + 24), m (sp + 32), m (sp + 40), m (sp + 48)]"
  by (simp add: frame_at_def upt_rec)

lemma frame_at_20:
  "frame_at sp 20 m = [m sp, m (sp + 8), m (sp + 16), m (sp + 24), m (sp + 32), m (sp + 40), m (sp + 48),
     m (sp + 56), m (sp + 64), m (sp + 72), m (sp + 80), m (sp + 88), m (sp + 96), m (sp + 104),
     m (sp + 112), m (sp + 120), m (sp + 128), m (sp + 136), m (sp + 144), m (sp + 152)]"
  by (simp add: frame_at_def upt_rec)

lemma switch_keeps_frame:
  "frame_area sp n \<inter> save_area q c = {} \<Longrightarrow> frame_at sp n (c_mem (save_context q c)) = frame_at sp n (c_mem c)"
  by (rule frame_at_cong) (auto intro: save_context_mem)

lemma frame_area_7: "frame_area sp 7 = {sp, sp + 8, sp + 16, sp + 24, sp + 32, sp + 40, sp + 48}"
  by (simp add: frame_area_def atLeast0LessThan lessThan_nat_numeral lessThan_Suc insert_commute)

lemma length_frames [simp]:
  "length (kernel_frame entry trampoline) = 7" "length (user_frame rip rflags rsp) = 20"
  by (simp_all add: kernel_frame_def user_frame_def)

lemma align_16: "(w AND - 16) mod 16 = (0 :: u64)"
proof -
  have "take_bit 4 (w AND NOT (mask 4)) = 0"
    by (rule bit_word_eqI) (simp add: bit_simps)
  moreover have "NOT (mask 4 :: u64) = - 16" by (simp add: mask_eq_exp_minus_1)
  ultimately show ?thesis by (simp add: take_bit_eq_mod)
qed

lemma switch_to_user_frame:
  assumes "frame_at sp 20 (c_mem (save_context q c)) = user_frame rip rflags rsp"
  shows "c_rip (switch_to_user q sp cr3 c) = rip \<and> c_rsp (switch_to_user q sp cr3 c) = rsp
    \<and> c_cs (switch_to_user q sp cr3 c) = USER_CODE_SEL \<and> c_ss (switch_to_user q sp cr3 c) = USER_DATA_SEL
    \<and> c_rflags (switch_to_user q sp cr3 c) = rflags \<and> c_gpr (switch_to_user q sp cr3 c) r = 0
    \<and> (cr3 \<noteq> 0 \<longrightarrow> c_cr3 (switch_to_user q sp cr3 c) = cr3)"
proof -
  note f = assms [unfolded frame_at_20 user_frame_def, simplified numeral_nat replicate.simps append.simps list.inject]
  show ?thesis
    by (cases r) (simp_all add: switch_to_user_def pop_reg_def iretq_instr_def Let_def f add.commute [of _ sp])
qed

text \<open>A machine for the examples: the stack at 65536, the memory given.\<close>

definition cpu_at :: "memory \<Rightarrow> cpu" where
  "cpu_at m = \<lparr>c_gpr = (\<lambda>_. 7), c_rsp = 65536, c_rip = 0, c_rflags = 0, c_cs = 8, c_ss = 16, c_cr3 = 0, c_mem = m\<rparr>"

section \<open>Properties of the context switch\<close>

text \<open>
  C28: switching away from a thread and later back to it through the stack pointer that was saved
  continues it where it was: the callee-saved registers have their values, execution resumes at
  the return address and the stack pointer is as after the call. What is needed in between is
  that nobody writes the seven quadwords of its saved context.
\<close>

theorem thread_switch_back:
  assumes "c1 = thread_switch p sp2 c" "c3 = thread_switch q (c_mem c1 p) c2"
    "p \<notin> frame_area (c_rsp c - 48) 7"
    "frame_at (c_rsp c - 48) 7 (c_mem c2) = frame_at (c_rsp c - 48) 7 (c_mem c1)"
    "frame_area (c_rsp c - 48) 7 \<inter> save_area q c2 = {}"
  shows "map (c_gpr c3) callee_saved = map (c_gpr c) callee_saved
    \<and> c_rip c3 = c_mem c (c_rsp c) \<and> c_rsp c3 = c_rsp c + 8"
proof -
  have p: "p \<notin> {c_rsp c - 8, c_rsp c - 16, c_rsp c - 24, c_rsp c - 32, c_rsp c - 40, c_rsp c - 48}"
    "p \<noteq> c_rsp c" using assms(3) by (auto simp: frame_area_7)
  then have ret: "c_mem (save_context p c) (c_rsp c) = c_mem c (c_rsp c)"
    by (intro save_context_mem) (auto simp: save_area_def)
  have m1: "c_mem c1 = c_mem (save_context p c)" by (simp add: assms(1) thread_switch_eval Let_def)
  have sp: "c_mem c1 p = c_rsp c - 48" using save_context_saved [OF p(1)] by (simp add: m1)
  have "frame_at (c_rsp c - 48) 7 (c_mem (save_context q c2)) = frame_at (c_rsp c - 48) 7 (c_mem (save_context p c))"
    unfolding switch_keeps_frame [OF assms(5)] assms(4) m1 ..
  also have "\<dots> = map (c_gpr c) [RBX, RBP, R12, R13, R14, R15] @ [c_mem c (c_rsp c)]"
    unfolding frame_at_7 using save_context_saved [OF p(1)] ret by simp
  finally show ?thesis
    unfolding assms(2) sp frame_at_7 thread_switch_eval Let_def by (simp add: callee_saved_def)
qed

theorem thread_switch_back_witness:
  "c_rip (thread_switch 72 (c_mem (thread_switch 64 8192 (cpu_at (\<lambda>_. 42))) 64)
     ((thread_switch 64 8192 (cpu_at (\<lambda>_. 42)))\<lparr>c_rsp := 16384\<rparr>)) = 42"
proof -
  have "c_rsp (cpu_at (\<lambda>_. 42)) = 65536" "c_mem (cpu_at (\<lambda>_. 42)) = (\<lambda>_. 42)" by (simp_all add: cpu_at_def)
  with thread_switch_back [OF refl refl, of 64 "cpu_at (\<lambda>_. 42)"
      "(thread_switch 64 8192 (cpu_at (\<lambda>_. 42)))\<lparr>c_rsp := 16384\<rparr>" 8192 72]
  show ?thesis by (simp add: frame_area_7 save_area_def)
qed

text \<open>
  The timer interrupt saves a context in another layout: the stub of \<open>arch/x86_64/idt.rs\<close> pushes
  fifteen registers. A kernel thread that is preempted is queued with that stack pointer and
  resumed by \<open>thread_switch\<close>, which takes the seventh quadword for a return address: execution
  continues at the value of R9.
\<close>

definition timer_stub_save :: "cpu \<Rightarrow> cpu" where
  "timer_stub_save c =
     fold push_reg [RAX, RBX, RCX, RDX, RSI, RDI, RBP, R8, R9, R10, R11, R12, R13, R14, R15] c"

lemma preempted_kernel_thread_resumes_at_r9:
  assumes "frame_at (c_rsp (timer_stub_save c)) 7 (c_mem c2) = frame_at (c_rsp (timer_stub_save c)) 7 (c_mem (timer_stub_save c))"
    "frame_area (c_rsp (timer_stub_save c)) 7 \<inter> save_area q c2 = {}"
  shows "c_rip (thread_switch q (c_rsp (timer_stub_save c)) c2) = c_gpr c R9"
proof -
  have "frame_at (c_rsp (timer_stub_save c)) 7 (c_mem (timer_stub_save c)) ! 6 = c_gpr c R9"
    unfolding frame_at_7 by (simp add: timer_stub_save_def push_reg_def)
  then have "frame_at (c_rsp (timer_stub_save c)) 7 (c_mem (save_context q c2)) ! 6 = c_gpr c R9"
    using switch_keeps_frame [OF assms(2)] assms(1) by simp
  then show ?thesis unfolding frame_at_7 by (simp add: thread_switch_eval Let_def)
qed

text \<open>
  A new kernel thread starts in the trampoline with its entry function in RBX and a stack
  pointer aligned to sixteen bytes, whichever thread is switched away from, provided that the
  context saved there does not overlap the new stack.
\<close>

theorem kernel_thread_starts:
  assumes "thread_new stack ticks trampoline name entry priority tid m = (t, c_mem c)"
    "frame_area (t_stack_ptr t) 7 \<inter> save_area q c = {}"
  shows "c_rip (thread_switch q (t_stack_ptr t) c) = trampoline
    \<and> c_gpr (thread_switch q (t_stack_ptr t) c) RBX = entry
    \<and> c_rsp (thread_switch q (t_stack_ptr t) c) mod 16 = 0"
proof -
  let ?top = "(stack + THREAD_STACK_SIZE) AND NOT 15"
  have t: "t_stack_ptr t = ?top - 56" "c_mem c = write_frame (?top - 56) (kernel_frame entry trampoline) m"
    using assms(1) by (auto simp: thread_new_def thread_on_def Let_def)
  have "frame_at (?top - 56) 7 (c_mem c) = kernel_frame entry trampoline"
    using frame_at_write_frame [of "kernel_frame entry trampoline"] by (simp add: t)
  then have "frame_at (?top - 56) 7 (c_mem (save_context q c)) = kernel_frame entry trampoline"
    using switch_keeps_frame [OF assms(2)] by (simp add: t)
  then show ?thesis
    unfolding t(1) frame_at_7 thread_switch_eval Let_def by (simp add: kernel_frame_def align_16)
qed

theorem kernel_thread_starts_witness:
  "c_rip (thread_switch 64 (t_stack_ptr (fst (thread_new 131072 0 4242 ''idle'' 99 1 5 (\<lambda>_. 0))))
     (cpu_at (snd (thread_new 131072 0 4242 ''idle'' 99 1 5 (\<lambda>_. 0))))) = 4242"
proof -
  let ?new = "thread_new 131072 0 4242 ''idle'' 99 1 5 (\<lambda>_. 0)"
  have "t_stack_ptr (fst ?new) = 262088"
    by (simp add: thread_new_def thread_on_def THREAD_STACK_SIZE_def Let_def)
  moreover have "c_mem (cpu_at (snd ?new)) = snd ?new" "c_rsp (cpu_at (snd ?new)) = 65536"
    by (simp_all add: cpu_at_def)
  ultimately show ?thesis
    using kernel_thread_starts [of 131072 0 4242 "''idle''" 99 1 5 "\<lambda>_. 0" "fst ?new" "cpu_at (snd ?new)" 64]
    by (simp add: frame_area_7 save_area_def)
qed

text \<open>
  C29: switching to a new user thread enters ring 3 at its entry point with its stack, interrupts
  enabled, its address space and every general register zero.
\<close>

theorem user_thread_enters_ring3:
  assumes "thread_new_user stack ticks name pid entry_rip user_rsp cr3 priority tid m = (t, c_mem c)"
    "frame_area (t_stack_ptr t) 20 \<inter> save_area q c = {}" "cr3 \<noteq> 0"
    "c' = switch_to_user q (t_stack_ptr t) (t_cr3 t) c"
  shows "c_rip c' = entry_rip \<and> c_rsp c' = user_rsp \<and> c_cr3 c' = cr3 \<and> c_cs c' AND 3 = 3
    \<and> bit (c_rflags c') 9 \<and> (\<forall>r. c_gpr c' r = 0)"
proof -
  let ?sp = "(stack + THREAD_STACK_SIZE AND NOT 15) - 160"
  let ?f = "user_frame entry_rip 0x202 user_rsp"
  have t: "t_stack_ptr t = ?sp" "t_cr3 t = cr3" "c_mem c = write_frame ?sp ?f m"
    using assms(1) by (auto simp: thread_new_user_def Let_def)
  have "frame_at ?sp 20 (c_mem c) = ?f"
    using frame_at_write_frame [of ?f] by (simp add: t)
  then have "frame_at ?sp 20 (c_mem (save_context q c)) = ?f"
    using switch_keeps_frame [OF assms(2)] by (simp add: t)
  from switch_to_user_frame [OF this] show ?thesis
    using assms(3) by (simp add: assms(4) t USER_CODE_SEL_def bit_numeral_rec)
qed

theorem user_thread_enters_ring3_witness:
  "c_rip (switch_to_user 64 261984 3 (cpu_at (snd (thread_new_user 131072 0 ''sh'' 1 4096 8192 3 5 9 (\<lambda>_. 0))))) = 4096"
proof -
  let ?new = "thread_new_user 131072 0 ''sh'' 1 4096 8192 3 5 9 (\<lambda>_. 0)"
  have "t_stack_ptr (fst ?new) = 261984" "t_cr3 (fst ?new) = 3"
    by (simp_all add: thread_new_user_def THREAD_STACK_SIZE_def Let_def)
  moreover have "c_mem (cpu_at (snd ?new)) = snd ?new" "c_rsp (cpu_at (snd ?new)) = 65536"
    by (simp_all add: cpu_at_def)
  moreover have "frame_area 261984 20 \<inter> save_area 64 (cpu_at (snd ?new)) = {}"
    by (simp add: frame_area_def save_area_def cpu_at_def atLeast0LessThan lessThan_nat_numeral lessThan_Suc)
  ultimately show ?thesis
    using user_thread_enters_ring3 [of 131072 0 "''sh''" 1 4096 8192 3 5 9 "\<lambda>_. 0" "fst ?new"
        "cpu_at (snd ?new)" 64, OF _ _ _ refl]
    by simp
qed

end
