(* ===== verification/Proc_Sched.thy ===== *)
theory Proc_Sched
  imports Proc_Thread
begin

text \<open>
  The round-robin scheduler (\<open>kernel/src/process/scheduler.rs\<close>) with the wait queue
  (\<open>wait.rs\<close>) and the waking part of the timer interrupt (\<open>arch/x86_64/idt.rs\<close>). The state holds the
  queues and what a switch does to the processor: the stack pointer of the running context, the
  kernel stack for system calls and the page table. \<open>cpu_sp\<close> is the value that a context switch
  stores for the thread it leaves. Attempts to take the scheduler lock from an interrupt are
  parameters: \<open>locked\<close> says that the interrupted code holds it.
\<close>

section \<open>State\<close>

datatype wait_reason =
  WaitSleep u64
| WaitPid u64
| WaitPipeRead u64

record wait_entry =
  we_tid :: u64
  we_reason :: wait_reason

record preempt_target =
  pt_new_sp :: u64
  pt_new_cr3 :: u64
  pt_is_user :: bool
  pt_active :: bool

record sched =
  ready_queue :: "thread list"
  current :: "thread option"
  blocked_threads :: "u64 \<rightharpoonup> thread"
  initialized :: bool
  is_game_mode :: bool
  next_tid :: u64
  wait_queue :: "wait_entry list"
  preempt_tgt :: preempt_target
  cpu_sp :: u64
  cpu_rsp0 :: u64
  cpu_cr3 :: u64

definition sched_new :: sched where
  "sched_new = \<lparr>ready_queue = [], current = None, blocked_threads = Map.empty, initialized = False,
     is_game_mode = False, next_tid = 1, wait_queue = [],
     preempt_tgt = \<lparr>pt_new_sp = 0, pt_new_cr3 = 0, pt_is_user = False, pt_active = False\<rparr>,
     cpu_sp = 0, cpu_rsp0 = 0, cpu_cr3 = 0\<rparr>"

definition sched_init :: "sched \<Rightarrow> sched" where
  "sched_init s = s\<lparr>current := Some boot_thread, initialized := True\<rparr>"

definition alloc_tid :: "sched \<Rightarrow> u64 \<times> sched" where
  "alloc_tid s = (next_tid s, s\<lparr>next_tid := next_tid s + 1\<rparr>)"

section \<open>The wait queue\<close>

definition sleep_thread :: "u64 \<Rightarrow> wait_reason \<Rightarrow> sched \<Rightarrow> sched" where
  "sleep_thread tid reason s =
     s\<lparr>wait_queue := wait_queue s @ [\<lparr>we_tid = tid, we_reason = reason\<rparr>]\<rparr>"

text \<open>\<open>retain\<close> with a closure that records what it drops.\<close>

definition retain_woken :: "(wait_reason \<Rightarrow> bool) \<Rightarrow> sched \<Rightarrow> u64 list \<times> sched" where
  "retain_woken hit s =
     (map we_tid (filter (\<lambda>e. hit (we_reason e)) (wait_queue s)),
      s\<lparr>wait_queue := filter (\<lambda>e. \<not> hit (we_reason e)) (wait_queue s)\<rparr>)"

definition check_wakeups :: "u64 \<Rightarrow> sched \<Rightarrow> u64 list \<times> sched" where
  "check_wakeups current_tick =
     retain_woken (\<lambda>r. case r of WaitSleep wake_at_tick \<Rightarrow> wake_at_tick \<le> current_tick | _ \<Rightarrow> False)"

definition wake_waiters_for_pid :: "u64 \<Rightarrow> sched \<Rightarrow> u64 list \<times> sched" where
  "wake_waiters_for_pid target =
     retain_woken (\<lambda>r. case r of WaitPid tp \<Rightarrow> tp = target \<or> tp = 0 | _ \<Rightarrow> False)"

definition wake_pipe_readers :: "u64 \<Rightarrow> sched \<Rightarrow> u64 list \<times> sched" where
  "wake_pipe_readers pipe_id =
     retain_woken (\<lambda>r. case r of WaitPipeRead p \<Rightarrow> p = pipe_id | _ \<Rightarrow> False)"

definition wait_queue_count :: "sched \<Rightarrow> nat" where
  "wait_queue_count s = length (wait_queue s)"

definition wait_queue_snapshot :: "sched \<Rightarrow> (u64 \<times> wait_reason) list" where
  "wait_queue_snapshot s = map (\<lambda>e. (we_tid e, we_reason e)) (wait_queue s)"

section \<open>Creating threads\<close>

text \<open>\<open>ready\<close> is the record that the thread constructors return for the new identifier.\<close>

definition spawn :: "(u64 \<Rightarrow> thread) \<Rightarrow> sched \<Rightarrow> sched" where
  "spawn mk s = (case alloc_tid s of (tid, s) \<Rightarrow> s\<lparr>ready_queue := ready_queue s @ [mk tid]\<rparr>)"

definition kernel_thread :: "u64 \<Rightarrow> u64 \<Rightarrow> u64 \<Rightarrow> string \<Rightarrow> u64 \<Rightarrow> u8 \<Rightarrow> u64 \<Rightarrow> thread" where
  "kernel_thread stack ticks trampoline name entry priority tid =
     fst (thread_new stack ticks trampoline name entry priority tid (\<lambda>_. 0))"

text \<open>
  The child of a fork: a fresh kernel stack of sixteen kilobytes at \<open>stack\<close> holds the frame that
  returns zero to the instruction after the system call of the parent.
\<close>

definition forked_thread :: "u64 \<Rightarrow> u64 \<Rightarrow> u64 \<Rightarrow> u64 \<Rightarrow> u64 \<Rightarrow> thread" where
  "forked_thread stack ticks child_pid child_cr3 tid =
     (let kernel_stack_top = stack + 4096 * 4; initial_sp = kernel_stack_top - 20 * 8 in
      \<lparr>t_tid = tid, t_pid = child_pid, t_name = ''forked'', t_state = Ready, t_stack_ptr = initial_sp,
       t_kernel_stack_ptr = kernel_stack_top, t_priority = 5, t_is_user = True, t_cr3 = child_cr3,
       t_canary = gen_canary ticks tid\<rparr>)"

definition forked_frame :: "u64 \<Rightarrow> u64 \<Rightarrow> u64 \<Rightarrow> u64 list" where
  "forked_frame parent_user_rip parent_user_rflags user_rsp =
     user_frame parent_user_rip (parent_user_rflags OR 0x200) user_rsp"

definition fork_current_thread :: "u64 \<Rightarrow> u64 \<Rightarrow> u64 \<Rightarrow> u64 \<Rightarrow> sched \<Rightarrow> u64 \<times> sched" where
  "fork_current_thread stack ticks child_pid child_cr3 s =
     (case alloc_tid s of (tid, s) \<Rightarrow>
       (tid, s\<lparr>ready_queue := ready_queue s @ [forked_thread stack ticks child_pid child_cr3 tid]\<rparr>))"

section \<open>Switching\<close>

text \<open>The processor side of a switch to \<open>new\<close>.\<close>

definition switch_cpu :: "thread \<Rightarrow> sched \<Rightarrow> sched" where
  "switch_cpu new s =
     (let s = s\<lparr>cpu_sp := t_stack_ptr new\<rparr> in
      if t_is_user new
      then s\<lparr>cpu_rsp0 := t_kernel_stack_ptr new,
             cpu_cr3 := (if t_cr3 new \<noteq> 0 then t_cr3 new else cpu_cr3 s)\<rparr>
      else s)"

definition yield_now :: "sched \<Rightarrow> sched" where
  "yield_now s =
     (if \<not> initialized s \<or> ready_queue s = [] then s
      else case current s of
        None \<Rightarrow> s
      | Some old_thread \<Rightarrow> (case ready_queue s of
          [] \<Rightarrow> s
        | new_thread # q \<Rightarrow>
            let q = (if t_state old_thread \<noteq> Dead then q @ [old_thread\<lparr>t_state := Ready\<rparr>] else q);
                new_thread = new_thread\<lparr>t_state := Running\<rparr>;
                dead = (q = [] \<or> t_state (last q) = Dead);
                q = (if \<not> dead then q[length q - 1 := (last q)\<lparr>t_stack_ptr := cpu_sp s\<rparr>] else q)
            in switch_cpu new_thread (s\<lparr>ready_queue := q, current := Some new_thread\<rparr>)))"

definition run_next :: "sched \<Rightarrow> sched" where
  "run_next s =
     (case ready_queue s of
        [] \<Rightarrow> s
      | next # q \<Rightarrow>
          let next = next\<lparr>t_state := Running\<rparr>
          in switch_cpu next (s\<lparr>ready_queue := q, current := Some next\<rparr>))"

definition exit_current_thread :: "sched \<Rightarrow> sched" where
  "exit_current_thread s =
     run_next (s\<lparr>current := map_option (\<lambda>t. t\<lparr>t_state := Dead\<rparr>) (current s)\<rparr>)"

definition block_current_thread :: "wait_reason \<Rightarrow> sched \<Rightarrow> sched" where
  "block_current_thread reason s =
     (if \<not> initialized s then s
      else case current s of
        None \<Rightarrow> s
      | Some thread \<Rightarrow>
          let s = s\<lparr>current := None\<rparr>;
              tid = t_tid thread;
              thread = thread\<lparr>t_state := Blocked\<rparr>;
              s = sleep_thread tid reason s;
              s = s\<lparr>blocked_threads := (blocked_threads s)(tid \<mapsto> thread)\<rparr>
          in run_next s)"

definition wake_thread :: "bool \<Rightarrow> u64 \<Rightarrow> sched \<Rightarrow> sched" where
  "wake_thread locked tid s =
     (if locked then s
      else case blocked_threads s tid of
        None \<Rightarrow> s
      | Some thread \<Rightarrow> s\<lparr>blocked_threads := (blocked_threads s)(tid := None),
          ready_queue := ready_queue s @ [thread\<lparr>t_state := Ready\<rparr>]\<rparr>)"

text \<open>\<open>position\<close> and \<open>remove\<close> of the first user thread.\<close>

fun take_user :: "thread list \<Rightarrow> (thread \<times> thread list) option" where
  "take_user [] = None"
| "take_user (t # q) =
     (if t_is_user t then Some (t, q)
      else map_option (\<lambda>(u, q). (u, t # q)) (take_user q))"

definition preempt :: "bool \<Rightarrow> u64 \<Rightarrow> sched \<Rightarrow> bool \<times> sched" where
  "preempt locked interrupted_rsp s =
     (if locked \<or> \<not> initialized s \<or> ready_queue s = [] then (False, s)
      else case current s of
        None \<Rightarrow> (False, s)
      | Some old_thread \<Rightarrow>
          let old_thread = old_thread\<lparr>t_stack_ptr := interrupted_rsp, t_state := Ready\<rparr>
          in case take_user (ready_queue s) of
               None \<Rightarrow> (False, s\<lparr>current := Some (old_thread\<lparr>t_state := Running\<rparr>)\<rparr>)
             | Some (new_thread, q) \<Rightarrow>
                 let new_thread = new_thread\<lparr>t_state := Running\<rparr>;
                     s = s\<lparr>ready_queue := q @ [old_thread], current := Some new_thread,
                           preempt_tgt := \<lparr>pt_new_sp = t_stack_ptr new_thread,
                             pt_new_cr3 = t_cr3 new_thread, pt_is_user = t_is_user new_thread,
                             pt_active = True\<rparr>\<rparr>
                 in (True, if t_is_user new_thread
                           then s\<lparr>cpu_rsp0 := t_kernel_stack_ptr new_thread\<rparr> else s))"

text \<open>
  The timer interrupt: wake what has expired at the tick \<open>now\<close>, every ten ticks preempt; the stub
  then continues on the stack of the target and loads its page table.
\<close>

definition wake_all :: "bool \<Rightarrow> u64 list \<Rightarrow> sched \<Rightarrow> sched" where
  "wake_all locked tids s = fold (wake_thread locked) tids s"

definition timer_interrupt :: "bool \<Rightarrow> u64 \<Rightarrow> u64 \<Rightarrow> sched \<Rightarrow> sched" where
  "timer_interrupt locked now ctx_rsp s =
     (case check_wakeups now s of (woken, s) \<Rightarrow>
      let s = wake_all locked woken s in
      if now mod 10 = 0 then
        case preempt locked ctx_rsp s of
          (False, s) \<Rightarrow> s
        | (True, s) \<Rightarrow>
            let target = preempt_tgt s;
                s = s\<lparr>preempt_tgt := target\<lparr>pt_active := False\<rparr>\<rparr>
            in s\<lparr>cpu_sp := pt_new_sp target,
                 cpu_cr3 := (if pt_new_cr3 target \<noteq> 0 then pt_new_cr3 target else cpu_cr3 s)\<rparr>
      else s)"

definition exec_replace_context :: "u64 \<Rightarrow> sched \<Rightarrow> sched" where
  "exec_replace_context cr3 s =
     (case current s of
        None \<Rightarrow> s
      | Some thread \<Rightarrow>
          let kstack_top = t_kernel_stack_ptr thread;
              thread = thread\<lparr>t_cr3 := cr3, t_stack_ptr := kstack_top - 20 * 8\<rparr>
          in s\<lparr>current := Some thread, cpu_rsp0 := kstack_top, cpu_sp := kstack_top - 20 * 8,
               cpu_cr3 := (if cr3 \<noteq> 0 then cr3 else cpu_cr3 s)\<rparr>)"

section \<open>Queries\<close>

definition current_tid :: "sched \<Rightarrow> u64 option" where
  "current_tid s = map_option t_tid (current s)"

definition current_pid :: "sched \<Rightarrow> u64 option" where
  "current_pid s = map_option t_pid (current s)"

definition current_name :: "sched \<Rightarrow> string option" where
  "current_name s = map_option t_name (current s)"

definition ready_count :: "sched \<Rightarrow> nat" where
  "ready_count s = length (ready_queue s)"

definition list_threads :: "sched \<Rightarrow> (u64 \<times> string \<times> thread_state \<times> u8) list" where
  "list_threads s =
     (case current s of None \<Rightarrow> [] | Some t \<Rightarrow> [(t_tid t, t_name t, t_state t, t_priority t)])
     @ map (\<lambda>t. (t_tid t, t_name t, t_state t, t_priority t)) (ready_queue s)
     @ map (\<lambda>t. (t_tid t, t_name t, Blocked, t_priority t)) (map_values (blocked_threads s))"

definition blocked_count :: "sched \<Rightarrow> nat" where
  "blocked_count s = map_len (blocked_threads s)"

section \<open>The invariant\<close>

definition cur_list :: "sched \<Rightarrow> thread list" where
  "cur_list s = (case current s of None \<Rightarrow> [] | Some t \<Rightarrow> [t])"

definition sched_ok :: "sched \<Rightarrow> bool" where
  "sched_ok s \<longleftrightarrow>
     distinct (map t_tid (cur_list s @ ready_queue s))
     \<and> (\<forall>t \<in> set (cur_list s @ ready_queue s). t_tid t < next_tid s \<and> blocked_threads s (t_tid t) = None)
     \<and> (\<forall>tid t. blocked_threads s tid = Some t \<longrightarrow> t_tid t = tid \<and> t_state t = Blocked \<and> tid < next_tid s)
     \<and> (\<forall>t \<in> set (ready_queue s). t_state t = Ready)
     \<and> (\<forall>t \<in> set (cur_list s). t_state t = Running \<or> t_state t = Dead)"

text \<open>The identifiers of the threads that have not exited.\<close>

definition live_tids :: "sched \<Rightarrow> u64 set" where
  "live_tids s =
     (case current s of None \<Rightarrow> {} | Some t \<Rightarrow> if t_state t = Dead then {} else {t_tid t})
     \<union> t_tid ` set (ready_queue s) \<union> dom (blocked_threads s)"

lemma switch_cpu_sel [simp]:
  "ready_queue (switch_cpu t s) = ready_queue s" "current (switch_cpu t s) = current s"
  "blocked_threads (switch_cpu t s) = blocked_threads s" "next_tid (switch_cpu t s) = next_tid s"
  "initialized (switch_cpu t s) = initialized s" "wait_queue (switch_cpu t s) = wait_queue s"
  "cpu_sp (switch_cpu t s) = t_stack_ptr t"
  by (simp_all add: switch_cpu_def Let_def)

lemma yield_live:
  assumes "initialized s" "current s = Some old" "t_state old \<noteq> Dead" "ready_queue s = new # q"
  shows "yield_now s = switch_cpu (new\<lparr>t_state := Running\<rparr>)
    (s\<lparr>ready_queue := q @ [old\<lparr>t_state := Ready, t_stack_ptr := cpu_sp s\<rparr>],
       current := Some (new\<lparr>t_state := Running\<rparr>)\<rparr>)"
  using assms by (simp add: yield_now_def Let_def list_update_append)

lemma yield_dead:
  assumes "initialized s" "current s = Some old" "t_state old = Dead" "ready_queue s = new # q"
    "\<forall>t \<in> set q. t_state t \<noteq> Dead"
  shows "yield_now s = switch_cpu (new\<lparr>t_state := Running\<rparr>)
    (s\<lparr>ready_queue := (if q = [] then [] else butlast q @ [(last q)\<lparr>t_stack_ptr := cpu_sp s\<rparr>]),
       current := Some (new\<lparr>t_state := Running\<rparr>)\<rparr>)"
proof (cases q rule: rev_cases)
  case Nil
  with assms show ?thesis by (simp add: yield_now_def Let_def)
next
  case (snoc ys y)
  with assms show ?thesis by (simp add: yield_now_def Let_def list_update_append)
qed

lemma yield_idle: "\<not> initialized s \<or> ready_queue s = [] \<or> current s = None \<Longrightarrow> yield_now s = s"
  by (auto simp: yield_now_def)

lemma sched_ok_yield: "sched_ok s \<Longrightarrow> sched_ok (yield_now s)"
proof (cases "\<not> initialized s \<or> ready_queue s = [] \<or> current s = None")
  case False
  assume ok: "sched_ok s"
  from False obtain old new q where c: "initialized s" "current s = Some old" "ready_queue s = new # q"
    by (cases "ready_queue s") auto
  show ?thesis
  proof (cases "t_state old = Dead")
    case False
    from ok show ?thesis
      unfolding yield_live [OF c(1,2) False c(3)] by (auto simp: sched_ok_def cur_list_def c)
  next
    case True
    have l: "\<forall>t \<in> set q. t_state t \<noteq> Dead" using ok by (auto simp: sched_ok_def c)
    from ok show ?thesis
      unfolding yield_dead [OF c(1,2) True c(3) l]
      by (cases q rule: rev_cases) (auto simp: sched_ok_def cur_list_def c)
  qed
qed (simp add: yield_idle)

lemma sched_ok_run_next:
  assumes "sched_ok s" "\<And>t. current s = Some t \<Longrightarrow> t_state t = Dead"
  shows "sched_ok (run_next s)"
  using assms by (cases "ready_queue s") (auto simp: run_next_def Let_def sched_ok_def cur_list_def split: option.splits)

lemma sched_ok_exit: "sched_ok s \<Longrightarrow> sched_ok (exit_current_thread s)"
  unfolding exit_current_thread_def
  by (rule sched_ok_run_next) (auto simp: sched_ok_def cur_list_def split: option.splits)

lemma sched_ok_block: "sched_ok s \<Longrightarrow> sched_ok (block_current_thread reason s)"
proof (cases "initialized s \<and> current s \<noteq> None")
  case True
  assume ok: "sched_ok s"
  from True obtain t where t: "initialized s" "current s = Some t" by auto
  let ?s = "sleep_thread (t_tid t) reason (s\<lparr>current := None\<rparr>)"
  let ?u = "?s\<lparr>blocked_threads := (blocked_threads ?s)(t_tid t \<mapsto> t\<lparr>t_state := Blocked\<rparr>)\<rparr>"
  have "sched_ok ?u" using ok t by (auto simp: sched_ok_def cur_list_def sleep_thread_def image_iff)
  then have "sched_ok (run_next ?u)" by (rule sched_ok_run_next) (simp add: sleep_thread_def)
  then show ?thesis using t by (simp add: block_current_thread_def Let_def)
next
  case False
  assume "sched_ok s"
  with False show ?thesis by (auto simp: block_current_thread_def split: option.splits)
qed

lemma sched_ok_wake: "sched_ok s \<Longrightarrow> sched_ok (wake_thread locked tid s)"
  by (auto simp: wake_thread_def sched_ok_def cur_list_def split: option.splits)

lemma sched_ok_wake_all: "sched_ok s \<Longrightarrow> sched_ok (wake_all locked tids s)"
  unfolding wake_all_def by (induction tids arbitrary: s) (simp_all add: sched_ok_wake)

lemma sched_ok_retain: "sched_ok s \<Longrightarrow> sched_ok (snd (retain_woken hit s))"
  by (simp add: retain_woken_def sched_ok_def cur_list_def)

lemma take_user_split:
  "take_user q = Some (t, q') \<Longrightarrow> \<exists>as bs. q = as @ t # bs \<and> q' = as @ bs \<and> t_is_user t"
proof (induction q arbitrary: q')
  case (Cons a q)
  show ?case
  proof (cases "t_is_user a")
    case True
    with Cons.prems show ?thesis by (intro exI [of _ "[]"] exI [of _ q']) auto
  next
    case False
    then obtain r where r: "take_user q = Some (t, r)" "q' = a # r" using Cons.prems by auto
    from Cons.IH [OF r(1)] obtain as bs where "q = as @ t # bs" "r = as @ bs" "t_is_user t" by auto
    then show ?thesis by (intro exI [of _ "a # as"] exI [of _ bs]) (simp add: r(2))
  qed
qed simp

lemma sched_ok_switch_to:
  assumes "sched_ok s" "current s = Some old" "ready_queue s = as @ new # bs"
    "t_tid old' = t_tid old" "t_state old' = Ready" "t_tid new' = t_tid new" "t_state new' = Running"
    "current s' = Some new'" "ready_queue s' = (as @ bs) @ [old']"
    "blocked_threads s' = blocked_threads s" "next_tid s' = next_tid s"
  shows "sched_ok s'"
  using assms(1) by (auto simp: sched_ok_def cur_list_def assms(2-11))

lemma sched_ok_preempt: "sched_ok s \<Longrightarrow> sched_ok (snd (preempt locked rsp s))"
proof (cases "locked \<or> \<not> initialized s \<or> ready_queue s = [] \<or> current s = None")
  case False
  assume ok: "sched_ok s"
  from False obtain old where c: "\<not> locked" "initialized s" "ready_queue s \<noteq> []" "current s = Some old" by auto
  show ?thesis
  proof (cases "take_user (ready_queue s)")
    case None
    then have "snd (preempt locked rsp s) =
        s\<lparr>current := Some (old\<lparr>t_stack_ptr := rsp, t_state := Running\<rparr>)\<rparr>"
      using c by (simp add: preempt_def Let_def)
    with ok c(4) show ?thesis by (simp add: sched_ok_def cur_list_def)
  next
    case (Some p)
    obtain new q where p: "p = (new, q)" by fastforce
    from take_user_split [OF Some [unfolded p]] obtain as bs where
      q: "ready_queue s = as @ new # bs" "q = as @ bs" by auto
    show ?thesis
      by (rule sched_ok_switch_to [OF ok c(4) q(1), of "old\<lparr>t_stack_ptr := rsp, t_state := Ready\<rparr>"
            "new\<lparr>t_state := Running\<rparr>"]) (use c Some p q(2) in \<open>simp_all add: preempt_def Let_def\<close>)
  qed
qed (auto simp: preempt_def)

lemma sched_ok_cpu:
  "sched_ok (s\<lparr>cpu_sp := a\<rparr>) = sched_ok s" "sched_ok (s\<lparr>cpu_cr3 := a\<rparr>) = sched_ok s"
  "sched_ok (s\<lparr>preempt_tgt := t\<rparr>) = sched_ok s"
  by (simp_all add: sched_ok_def cur_list_def)

lemma sched_ok_timer: "sched_ok s \<Longrightarrow> sched_ok (timer_interrupt locked now rsp s)"
proof -
  assume ok: "sched_ok s"
  obtain woken s1 where w: "check_wakeups now s = (woken, s1)" by fastforce
  have s1: "sched_ok (wake_all locked woken s1)"
    using sched_ok_retain [OF ok] w by (metis check_wakeups_def sched_ok_wake_all snd_conv)
  obtain b s2 where p: "preempt locked rsp (wake_all locked woken s1) = (b, s2)" by fastforce
  then have "sched_ok s2" using sched_ok_preempt [OF s1, of locked rsp] by simp
  with s1 show ?thesis
    by (simp add: timer_interrupt_def w p Let_def sched_ok_cpu split: bool.split)
qed

text \<open>The constructors of threads give them their identifier and the ready state.\<close>

definition fresh_thread :: "(u64 \<Rightarrow> thread) \<Rightarrow> bool" where
  "fresh_thread mk = (\<forall>tid. t_tid (mk tid) = tid \<and> t_state (mk tid) = Ready)"

lemma fresh_constructors:
  "fresh_thread (kernel_thread stack ticks tr name entry priority)"
  "fresh_thread (forked_thread stack ticks child_pid child_cr3)"
  by (simp_all add: fresh_thread_def kernel_thread_def thread_new_def thread_on_def forked_thread_def Let_def)

lemma sched_ok_spawn:
  assumes "sched_ok s" "fresh_thread mk" "next_tid s \<noteq> - 1"
  shows "sched_ok (spawn mk s)"
proof -
  have lt: "next_tid s < next_tid s + 1" using assms(3) by (rule less_Suc_word)
  then have "x < next_tid s \<Longrightarrow> x < next_tid s + 1 \<and> x \<noteq> next_tid s" for x by auto
  with assms(1,2) lt show ?thesis
    by (fastforce simp: spawn_def alloc_tid_def sched_ok_def cur_list_def fresh_thread_def)
qed

lemma fork_current_thread_spawn:
  "snd (fork_current_thread stack ticks pid cr3 s) = spawn (forked_thread stack ticks pid cr3) s"
  by (simp add: fork_current_thread_def spawn_def alloc_tid_def)

lemma sched_ok_exec: "sched_ok s \<Longrightarrow> sched_ok (exec_replace_context cr3 s)"
  by (auto simp: exec_replace_context_def Let_def sched_ok_def cur_list_def split: option.splits)

section \<open>Reachable states\<close>

text \<open>
  The operations as steps; \<open>Run\<close> is any progress of the running thread on its stack. Only where
  \<open>contended\<close> holds can the timer interrupt find the scheduler lock taken.
\<close>

inductive sched_step :: "bool \<Rightarrow> sched \<Rightarrow> sched \<Rightarrow> bool" for contended where
  Spawn: "fresh_thread mk \<Longrightarrow> next_tid s \<noteq> - 1 \<Longrightarrow> sched_step contended s (spawn mk s)"
| Yield: "sched_step contended s (yield_now s)"
| Exit: "sched_step contended s (exit_current_thread s)"
| Block: "sched_step contended s (block_current_thread reason s)"
| Timer: "locked \<longrightarrow> contended \<Longrightarrow> sched_step contended s (timer_interrupt locked now rsp s)"
| ExitWake: "wake_waiters_for_pid pid s = (woken, s') \<Longrightarrow> sched_step contended s (wake_all False woken s')"
| PipeWake: "wake_pipe_readers pipe s = (woken, s') \<Longrightarrow> sched_step contended s (wake_all False woken s')"
| Exec: "sched_step contended s (exec_replace_context cr3 s)"
| Run: "sched_step contended s (s\<lparr>cpu_sp := sp\<rparr>)"

lemma sched_ok_woken:
  "retain_woken hit s = (woken, s') \<Longrightarrow> sched_ok s \<Longrightarrow> sched_ok (wake_all locked woken s')"
  using sched_ok_retain [of s hit] by (simp add: sched_ok_wake_all)

lemma sched_ok_step: "sched_step contended s s' \<Longrightarrow> sched_ok s \<Longrightarrow> sched_ok s'"
  by (induction rule: sched_step.induct)
    (auto intro: sched_ok_spawn sched_ok_yield sched_ok_exit sched_ok_block sched_ok_timer sched_ok_exec
      sched_ok_woken simp: sched_ok_cpu wake_waiters_for_pid_def wake_pipe_readers_def)

lemma sched_ok_init: "sched_ok (sched_init sched_new)"
  by (simp add: sched_ok_def sched_init_def sched_new_def cur_list_def boot_thread_def)

lemma sched_ok_reachable: "(sched_step contended)\<^sup>*\<^sup>* (sched_init sched_new) s \<Longrightarrow> sched_ok s"
  by (induction rule: rtranclp_induct) (simp_all add: sched_ok_init sched_ok_step)

text \<open>
  C24: whatever the threads and the timer do, no thread is in two places: in every reachable state
  the current thread, the ready queue and the blocked threads have pairwise different
  identifiers, ready threads are ready, blocked threads blocked under their own identifier, and
  no identifier is reused.
\<close>

theorem sched_threads_unique:
  assumes "(sched_step contended)\<^sup>*\<^sup>* (sched_init sched_new) s"
  shows "distinct (map t_tid (cur_list s @ ready_queue s))
    \<and> t_tid ` set (cur_list s @ ready_queue s) \<inter> dom (blocked_threads s) = {}
    \<and> list_all (\<lambda>t. t_state t = Ready) (ready_queue s)
    \<and> (blocked_threads s tid = Some t \<longrightarrow> t_tid t = tid \<and> t_state t = Blocked)
    \<and> (\<forall>tid. tid \<in> live_tids s \<longrightarrow> tid < next_tid s)"
  using sched_ok_reachable [OF assms]
  by (auto simp: sched_ok_def live_tids_def cur_list_def list_all_iff split: option.splits if_splits)

theorem sched_threads_unique_witness:
  "distinct (map t_tid (ready_queue (yield_now (spawn (kernel_thread 131072 0 99 ''a'' 7 1) (sched_init sched_new)))))"
proof -
  have "(sched_step False)\<^sup>*\<^sup>* (sched_init sched_new)
      (yield_now (spawn (kernel_thread 131072 0 99 ''a'' 7 1) (sched_init sched_new)))"
    by (rule converse_rtranclp_into_rtranclp, rule sched_step.Spawn [OF fresh_constructors(1)])
      (auto simp: sched_init_def sched_new_def intro: sched_step.Yield)
  from sched_threads_unique [OF this] show ?thesis by simp
qed





lemma live_wake: "sched_ok s \<Longrightarrow> live_tids (wake_thread locked tid s) = live_tids s"
  by (cases "blocked_threads s tid") (auto simp: wake_thread_def sched_ok_def live_tids_def)

lemma live_wake_all: "sched_ok s \<Longrightarrow> live_tids (wake_all locked tids s) = live_tids s"
  unfolding wake_all_def
  by (induction tids arbitrary: s) (simp_all add: live_wake sched_ok_wake)

lemma live_preempt:
  assumes "\<And>t. current s = Some t \<Longrightarrow> t_state t \<noteq> Dead"
  shows "live_tids (snd (preempt locked rsp s)) = live_tids s"
proof (cases "locked \<or> \<not> initialized s \<or> ready_queue s = [] \<or> current s = None")
  case False
  then obtain old where c: "\<not> locked" "initialized s" "ready_queue s \<noteq> []" "current s = Some old" by auto
  show ?thesis
  proof (cases "take_user (ready_queue s)")
    case (Some p)
    obtain new q where p: "p = (new, q)" by fastforce
    from take_user_split [OF Some [unfolded p]] obtain as bs where
      "ready_queue s = as @ new # bs" "q = as @ bs" by auto
    with c Some p assms [of old] show ?thesis by (auto simp: preempt_def Let_def live_tids_def)
  qed (use c assms [of old] in \<open>simp add: preempt_def Let_def live_tids_def\<close>)
qed (auto simp: preempt_def)

lemma live_tids_cong:
  "current s = current s' \<Longrightarrow> ready_queue s = ready_queue s' \<Longrightarrow> blocked_threads s = blocked_threads s' \<Longrightarrow>
     live_tids s = live_tids s'"
  by (simp add: live_tids_def)

lemma wake_all_current [simp]: "current (wake_all locked tids s) = current s"
  unfolding wake_all_def by (induction tids arbitrary: s) (simp_all add: wake_thread_def split: option.split)

lemma live_timer:
  assumes "sched_ok s" "\<And>t. current s = Some t \<Longrightarrow> t_state t \<noteq> Dead"
  shows "live_tids (timer_interrupt locked now rsp s) = live_tids s"
proof -
  obtain woken s1 where w: "check_wakeups now s = (woken, s1)" by fastforce
  then have s1: "sched_ok s1" "live_tids s1 = live_tids s" "current s1 = current s"
    using sched_ok_retain [OF assms(1)] by (auto simp: check_wakeups_def retain_woken_def live_tids_def)
  obtain b s2 where p: "preempt locked rsp (wake_all locked woken s1) = (b, s2)" by fastforce
  have "live_tids s2 = live_tids s"
    using live_preempt [of "wake_all locked woken s1" locked rsp] live_wake_all [OF s1(1)] s1(2,3) assms(2) p
    by simp
  then show ?thesis
    using live_wake_all [OF s1(1)] s1(2)
    by (auto simp: timer_interrupt_def w p Let_def live_tids_def split: bool.split)
qed



section \<open>Round robin\<close>

text \<open>A run of time slices: the running thread moves its stack pointer and yields.\<close>

fun slices :: "u64 list \<Rightarrow> sched \<Rightarrow> sched" where
  "slices [] s = s"
| "slices (sp # sps) s = slices sps (yield_now (s\<lparr>cpu_sp := sp\<rparr>))"

definition saved :: "thread \<Rightarrow> u64 \<Rightarrow> thread" where
  "saved t sp = t\<lparr>t_state := Ready, t_stack_ptr := sp\<rparr>"

lemma saved_running [simp]: "saved (t\<lparr>t_state := Running\<rparr>) sp = saved t sp"
  by (simp add: saved_def)

lemma slices_queue:
  assumes "initialized s" "current s = Some old" "t_state old \<noteq> Dead" "length sps \<le> length (ready_queue s)"
  shows "initialized (slices sps s)
    \<and> ready_queue (slices sps s) = drop (length sps) (ready_queue s)
        @ map2 saved (take (length sps) (old # ready_queue s)) sps
    \<and> (sps \<noteq> [] \<longrightarrow> current (slices sps s) = Some ((ready_queue s ! (length sps - 1))\<lparr>t_state := Running\<rparr>)
        \<and> cpu_sp (slices sps s) = t_stack_ptr (ready_queue s ! (length sps - 1)))"
  using assms
proof (induction sps arbitrary: s old)
  case (Cons sp sps)
  then obtain new q where q: "ready_queue s = new # q" by (cases "ready_queue s") auto
  let ?s = "yield_now (s\<lparr>cpu_sp := sp\<rparr>)"
  have y: "?s = switch_cpu (new\<lparr>t_state := Running\<rparr>) (s\<lparr>cpu_sp := sp, ready_queue := q @ [saved old sp],
      current := Some (new\<lparr>t_state := Running\<rparr>)\<rparr>)"
    using yield_live [of "s\<lparr>cpu_sp := sp\<rparr>" old new q] Cons.prems q by (simp add: saved_def)
  have IH: "initialized (slices sps ?s)
    \<and> ready_queue (slices sps ?s) = drop (length sps) (ready_queue ?s)
        @ map2 saved (take (length sps) (new\<lparr>t_state := Running\<rparr> # ready_queue ?s)) sps
    \<and> (sps \<noteq> [] \<longrightarrow> current (slices sps ?s) = Some ((ready_queue ?s ! (length sps - 1))\<lparr>t_state := Running\<rparr>)
        \<and> cpu_sp (slices sps ?s) = t_stack_ptr (ready_queue ?s ! (length sps - 1)))"
    using Cons.prems q by (intro Cons.IH) (simp_all add: y)
  have len: "length sps \<le> length q" using Cons.prems(4) q by simp
  have "map2 saved (take (length sps) (new\<lparr>t_state := Running\<rparr> # q @ [saved old sp])) sps =
      map2 saved (take (length sps) (new # q)) sps"
    using len by (cases sps) simp_all
  with IH len show ?case
    by (cases sps) (simp_all add: y q nth_append saved_def [of old])
qed (simp add: saved_def)

text \<open>
  C26: round robin. Among threads that yield, the thread at position \<open>i\<close> of the ready queue runs
  after \<open>i + 1\<close> time slices, on the stack pointer it was queued with, whatever the threads before
  it do with their stacks; after a full round the first thread runs again, on the stack pointer
  it had when it yielded.
\<close>

theorem round_robin:
  assumes "initialized s" "current s = Some t" "t_state t \<noteq> Dead" "length sps = length (ready_queue s)"
  shows "(\<forall>i < length sps. current (slices (take (Suc i) sps) s) = Some ((ready_queue s ! i)\<lparr>t_state := Running\<rparr>)
      \<and> cpu_sp (slices (take (Suc i) sps) s) = t_stack_ptr (ready_queue s ! i))
    \<and> (sps \<noteq> [] \<longrightarrow> current_tid (slices (sps @ [sp]) s) = Some (t_tid t) \<and> cpu_sp (slices (sps @ [sp]) s) = hd sps)"
proof -
  have app: "slices (xs @ ys) u = slices ys (slices xs u)" for xs ys u
    by (induction xs arbitrary: u) simp_all
  have first: "current (slices (take (Suc i) sps) s) = Some ((ready_queue s ! i)\<lparr>t_state := Running\<rparr>)
      \<and> cpu_sp (slices (take (Suc i) sps) s) = t_stack_ptr (ready_queue s ! i)" if "i < length sps" for i
  proof -
    from that have "length (take (Suc i) sps) = Suc i" "take (Suc i) sps \<noteq> []" by auto
    with slices_queue [OF assms(1-3), of "take (Suc i) sps"] that assms(4) show ?thesis
      by (simp del: length_take)
  qed
  have "current_tid (slices (sps @ [sp]) s) = Some (t_tid t) \<and> cpu_sp (slices (sps @ [sp]) s) = hd sps"
    if ne: "sps \<noteq> []"
  proof -
    let ?u = "slices sps s"
    obtain last where u: "initialized ?u" "current ?u = Some last" "t_state last = Running"
      using slices_queue [OF assms(1-3), of sps] ne assms(4) by auto
    obtain x xs where xs: "sps = x # xs" using ne by (cases sps) auto
    have "ready_queue ?u = saved t x # map2 saved (take (length xs) (ready_queue s)) xs"
      using slices_queue [OF assms(1-3), of sps] assms(4) by (simp add: xs)
    from yield_live [of "?u\<lparr>cpu_sp := sp\<rparr>" last, OF _ _ _ ] this u show ?thesis
      by (simp add: app xs current_tid_def saved_def)
  qed
  with first show ?thesis by blast
qed

theorem round_robin_witness:
  "current_tid (slices [100] (spawn (kernel_thread 131072 0 99 ''a'' 7 1) (sched_init sched_new))) = Some 1"
proof -
  let ?s = "spawn (kernel_thread 131072 0 99 ''a'' 7 1) (sched_init sched_new)"
  have "initialized ?s" "current ?s = Some boot_thread" "t_state boot_thread \<noteq> Dead"
    "ready_queue ?s = [kernel_thread 131072 0 99 ''a'' 7 1 1]"
    by (simp_all add: spawn_def alloc_tid_def sched_init_def sched_new_def boot_thread_def)
  with round_robin [of ?s boot_thread "[100]"] show ?thesis
    by (simp add: current_tid_def kernel_thread_def thread_new_def thread_on_def Let_def)
qed

section \<open>Waking\<close>

text \<open>Every blocked thread is registered in the wait queue.\<close>

definition waits_ok :: "sched \<Rightarrow> bool" where
  "waits_ok s \<longleftrightarrow> dom (blocked_threads s) \<subseteq> we_tid ` set (wait_queue s)"

lemma wake_all_blocked:
  "blocked_threads (wake_all False tids s) = (\<lambda>tid. if tid \<in> set tids then None else blocked_threads s tid)"
proof (induction tids arbitrary: s)
  case (Cons tid tids)
  have "blocked_threads (wake_thread False tid s) = (blocked_threads s)(tid := None)"
    by (auto simp: wake_thread_def split: option.split)
  moreover have "wake_all False (tid # tids) s = wake_all False tids (wake_thread False tid s)"
    by (simp add: wake_all_def)
  ultimately show ?case using Cons by auto
qed (simp add: wake_all_def)

lemma wake_all_wait [simp]: "wait_queue (wake_all locked tids s) = wait_queue s"
  unfolding wake_all_def
  by (induction tids arbitrary: s) (simp_all add: wake_thread_def split: option.split)

lemma waits_ok_woken:
  assumes "waits_ok s" "retain_woken hit s = (woken, s')"
  shows "waits_ok (wake_all False woken s')"
proof -
  have "woken = map we_tid (filter (\<lambda>e. hit (we_reason e)) (wait_queue s))"
    "wait_queue s' = filter (\<lambda>e. \<not> hit (we_reason e)) (wait_queue s)"
    "blocked_threads s' = blocked_threads s"
    using assms(2) by (auto simp: retain_woken_def)
  with assms(1) show ?thesis
    unfolding waits_ok_def wake_all_blocked wake_all_wait by (fastforce split: if_splits)
qed

lemma run_next_sel [simp]:
  "blocked_threads (run_next s) = blocked_threads s" "wait_queue (run_next s) = wait_queue s"
  by (cases "ready_queue s"; simp add: run_next_def Let_def)+

lemma preempt_sel [simp]:
  "blocked_threads (snd (preempt locked rsp s)) = blocked_threads s"
  "wait_queue (snd (preempt locked rsp s)) = wait_queue s"
  by (simp_all add: preempt_def Let_def split: option.split)

lemma timer_sel:
  "blocked_threads (timer_interrupt locked now rsp s) =
     blocked_threads (case check_wakeups now s of (woken, s) \<Rightarrow> wake_all locked woken s)"
  "wait_queue (timer_interrupt locked now rsp s) =
     wait_queue (case check_wakeups now s of (woken, s) \<Rightarrow> wake_all locked woken s)"
proof -
  obtain woken s1 where w: "check_wakeups now s = (woken, s1)" by fastforce
  obtain b s2 where p: "preempt locked rsp (wake_all locked woken s1) = (b, s2)" by fastforce
  have "blocked_threads s2 = blocked_threads (wake_all locked woken s1)"
    "wait_queue s2 = wait_queue (wake_all locked woken s1)"
    using preempt_sel [of locked rsp "wake_all locked woken s1"] p by simp_all
  then show "blocked_threads (timer_interrupt locked now rsp s) =
      blocked_threads (case check_wakeups now s of (woken, s) \<Rightarrow> wake_all locked woken s)"
    "wait_queue (timer_interrupt locked now rsp s) =
      wait_queue (case check_wakeups now s of (woken, s) \<Rightarrow> wake_all locked woken s)"
    by (simp_all add: timer_interrupt_def w p Let_def split: bool.split)
qed

lemma waits_ok_step: "sched_step False s s' \<Longrightarrow> waits_ok s \<Longrightarrow> waits_ok s'"
proof (induction rule: sched_step.induct)
  case (Timer locked s now rsp)
  obtain woken s1 where w: "check_wakeups now s = (woken, s1)" by fastforce
  with waits_ok_woken Timer.prems have "waits_ok (wake_all False woken s1)" by (auto simp: check_wakeups_def)
  with Timer.hyps w show ?case by (simp add: waits_ok_def timer_sel)
next
  case (Yield s)
  have "blocked_threads (yield_now s) = blocked_threads s" "wait_queue (yield_now s) = wait_queue s"
    by (simp_all add: yield_now_def Let_def split: option.split list.split)
  with Yield show ?case by (simp add: waits_ok_def)
next
  case (Block reason s)
  then show ?case
    by (auto simp: waits_ok_def block_current_thread_def Let_def sleep_thread_def split: option.split)
next
  case (ExitWake pid s woken s')
  then show ?case unfolding wake_waiters_for_pid_def by (blast intro: waits_ok_woken)
next
  case (PipeWake pipe s woken s')
  then show ?case unfolding wake_pipe_readers_def by (blast intro: waits_ok_woken)
qed (simp_all add: waits_ok_def spawn_def alloc_tid_def exit_current_thread_def exec_replace_context_def
    Let_def split: option.split)

lemma waits_ok_reachable: "(sched_step False)\<^sup>*\<^sup>* (sched_init sched_new) s \<Longrightarrow> waits_ok s"
proof (induction rule: rtranclp_induct)
  case base
  show ?case by (simp add: waits_ok_def sched_init_def sched_new_def)
qed (rule waits_ok_step)

text \<open>
  C27: no wake-up is lost while the timer can take the scheduler lock: every blocked thread has an
  entry in the wait queue, and the timer interrupt at a tick not before its wake time ends the
  block of a thread that only sleeps and puts it back among the runnable threads.
\<close>

theorem sleepers_wake:
  assumes "(sched_step False)\<^sup>*\<^sup>* (sched_init sched_new) s" "current s = Some t" "t_state t \<noteq> Dead"
    "blocked_threads s tid = Some u" "\<forall>e \<in> set (wait_queue s). we_tid e = tid \<longrightarrow>
      (\<exists>wake_at. we_reason e = WaitSleep wake_at \<and> wake_at \<le> now)"
  shows "blocked_threads (timer_interrupt False now rsp s) tid = None
    \<and> tid \<in> t_tid ` set (cur_list (timer_interrupt False now rsp s) @ ready_queue (timer_interrupt False now rsp s))"
proof -
  let ?s = "timer_interrupt False now rsp s"
  have ok: "sched_ok s" using assms(1) by (rule sched_ok_reachable)
  obtain woken s1 where w: "check_wakeups now s = (woken, s1)" by fastforce
  from waits_ok_reachable [OF assms(1)] assms(4) obtain e where e: "e \<in> set (wait_queue s)" "we_tid e = tid"
    by (auto simp: waits_ok_def)
  then have "tid \<in> set woken" using assms(5) w by (auto simp: check_wakeups_def retain_woken_def)
  then have gone: "blocked_threads ?s tid = None" by (simp add: timer_sel w wake_all_blocked)
  have "tid \<in> live_tids ?s"
    using live_timer [OF ok, of False now rsp] assms(2-4) by (auto simp: live_tids_def)
  with gone show ?thesis
    by (auto simp: live_tids_def cur_list_def split: option.splits if_splits)
qed

theorem sleepers_wake_witness:
  "blocked_threads (timer_interrupt False 9 0 (block_current_thread (WaitSleep 5)
     (spawn (kernel_thread 131072 0 99 ''a'' 7 1) (sched_init sched_new)))) 0 = None"
proof -
  let ?s0 = "spawn (kernel_thread 131072 0 99 ''a'' 7 1) (sched_init sched_new)"
  let ?s = "block_current_thread (WaitSleep 5) ?s0"
  have "(sched_step False)\<^sup>*\<^sup>* (sched_init sched_new) ?s"
    by (rule converse_rtranclp_into_rtranclp, rule sched_step.Spawn [OF fresh_constructors(1)])
      (auto simp: sched_init_def sched_new_def intro: sched_step.Block)
  moreover have "current ?s = Some ((kernel_thread 131072 0 99 ''a'' 7 1 1)\<lparr>t_state := Running\<rparr>)"
    "blocked_threads ?s 0 = Some (boot_thread\<lparr>t_state := Blocked\<rparr>)"
    "wait_queue ?s = [\<lparr>we_tid = 0, we_reason = WaitSleep 5\<rparr>]"
    by (simp_all add: block_current_thread_def spawn_def alloc_tid_def sched_init_def sched_new_def
        sleep_thread_def run_next_def Let_def boot_thread_def)
  ultimately show ?thesis
    using sleepers_wake [of ?s _ 0 _ 9 0] by simp
qed

text \<open>
  A timer interrupt that finds the lock taken drops the wake-ups of that tick: the entry has
  already left the wait queue, and no later tick wakes the thread.
\<close>

lemma lost_wakeup:
  assumes "blocked_threads s tid = Some u" "wait_queue s = [\<lparr>we_tid = tid, we_reason = WaitSleep w\<rparr>]" "w \<le> now"
  shows "blocked_threads (timer_interrupt False later rsp (timer_interrupt True now rsp s)) tid = Some u"
proof -
  have locked: "wake_all True tids x = x" for tids x
    unfolding wake_all_def by (induction tids arbitrary: x) (simp_all add: wake_thread_def)
  have "wait_queue (timer_interrupt True now rsp s) = []"
    "blocked_threads (timer_interrupt True now rsp s) = blocked_threads s"
    using assms by (simp_all add: timer_sel check_wakeups_def retain_woken_def locked)
  with assms(1) show ?thesis
    by (simp add: timer_sel check_wakeups_def retain_woken_def wake_all_blocked)
qed

text \<open>
  Blocking loses the position of the thread. The switch away from a thread that blocks does
  not store its stack pointer, so that when it is woken and scheduled again it continues on the
  stack pointer of its previous suspension and not on the one it blocked with; a yield keeps it.
\<close>

theorem block_loses_stack_pointer:
  assumes "initialized s" "current s = Some t" "t_state t \<noteq> Dead" "ready_queue s = [u]"
    "t_tid u \<noteq> t_tid t" "t_state u \<noteq> Dead"
  shows "cpu_sp (yield_now (wake_thread False (t_tid t) (block_current_thread reason s))) = t_stack_ptr t
    \<and> cpu_sp (yield_now (yield_now s)) = cpu_sp s"
proof -
  have "block_current_thread reason s = switch_cpu (u\<lparr>t_state := Running\<rparr>)
      ((sleep_thread (t_tid t) reason (s\<lparr>current := None\<rparr>))\<lparr>blocked_threads := (blocked_threads s)
        (t_tid t \<mapsto> t\<lparr>t_state := Blocked\<rparr>), ready_queue := [], current := Some (u\<lparr>t_state := Running\<rparr>)\<rparr>)"
    using assms by (simp add: block_current_thread_def run_next_def sleep_thread_def Let_def)
  then show ?thesis
    using assms by (simp add: wake_thread_def yield_live sleep_thread_def)
qed

theorem block_loses_stack_pointer_witness:
  "cpu_sp (yield_now (wake_thread False 0 (block_current_thread (WaitSleep 5)
     ((spawn (kernel_thread 131072 0 99 ''a'' 7 1) (sched_init sched_new))\<lparr>cpu_sp := 4242\<rparr>)))) = 0"
proof -
  let ?s = "(spawn (kernel_thread 131072 0 99 ''a'' 7 1) (sched_init sched_new))\<lparr>cpu_sp := 4242\<rparr>"
  have s: "initialized ?s" "current ?s = Some boot_thread" "ready_queue ?s = [kernel_thread 131072 0 99 ''a'' 7 1 1]"
    by (simp_all add: spawn_def alloc_tid_def sched_init_def sched_new_def)
  have b: "t_tid boot_thread = 0" "t_state boot_thread = Running" "t_stack_ptr boot_thread = 0"
    "t_tid (kernel_thread 131072 0 99 ''a'' 7 1 1) = 1" "t_state (kernel_thread 131072 0 99 ''a'' 7 1 1) = Ready"
    by (simp_all add: boot_thread_def kernel_thread_def thread_new_def thread_on_def Let_def)
  from block_loses_stack_pointer [OF s(1,2) _ s(3), of "WaitSleep 5"] b show ?thesis by simp
qed

end
