(* ===== verification/Sec_Audit.thy ===== *)
theory Sec_Audit
  imports Smart_Prelude
begin

text \<open>
  The audit log (\<open>kernel/src/security/audit.rs\<close>), system-call filtering
  (\<open>kernel/src/security/seccomp.rs\<close>) and the contract of a reference monitor. The global tables of
  the security subsystem are fields of one extensible record; each component adds its own.
\<close>

unbundle bit_operations_syntax

section \<open>The audit log\<close>

definition MAX_ENTRIES :: nat where
  "MAX_ENTRIES = 1024"

record audit_st =
  audit_entries :: "string list"
  audit_total :: u64

definition audit_log :: "string \<Rightarrow> 'a audit_st_scheme \<Rightarrow> 'a audit_st_scheme" where
  "audit_log entry s =
     (let es = (if MAX_ENTRIES \<le> length (audit_entries s) then tl (audit_entries s)
                else audit_entries s)
      in s\<lparr>audit_entries := es @ [entry], audit_total := audit_total s + 1\<rparr>)"

definition log_denied_syscall :: "u64 \<Rightarrow> u64 \<Rightarrow> string \<Rightarrow> 'a audit_st_scheme \<Rightarrow> 'a audit_st_scheme" where
  "log_denied_syscall pid syscall_nr reason s =
     audit_log (''DENY pid='' @ show_nat (unat pid) @ '' syscall='' @ show_nat (unat syscall_nr)
       @ '' reason='' @ reason) s"

definition log_auth :: "string \<Rightarrow> bool \<Rightarrow> string \<Rightarrow> 'a audit_st_scheme \<Rightarrow> 'a audit_st_scheme" where
  "log_auth username success ip s =
     (let result = (if success then ''SUCCESS'' else ''FAIL'') in
      audit_log (''AUTH user='' @ username @ '' result='' @ result @ '' src='' @ ip) s)"

definition log_cap_denied :: "u64 \<Rightarrow> u8 \<Rightarrow> 'a audit_st_scheme \<Rightarrow> 'a audit_st_scheme" where
  "log_cap_denied pid cap s =
     audit_log (''CAP_DENY pid='' @ show_nat (unat pid) @ '' cap='' @ show_nat (unat cap)) s"

definition audit_recent :: "nat \<Rightarrow> 'a audit_st_scheme \<Rightarrow> string list" where
  "audit_recent n s = drop (length (audit_entries s) - n) (audit_entries s)"

definition total_events :: "'a audit_st_scheme \<Rightarrow> u64" where
  "total_events s = audit_total s"

section \<open>System-call filters\<close>

definition SECCOMP_MODE_DISABLED :: u64 where "SECCOMP_MODE_DISABLED = 0"

definition SECCOMP_MODE_STRICT :: u64 where "SECCOMP_MODE_STRICT = 1"

datatype seccomp_mode = Disabled | Strict | FilterMode

text \<open>The 256-bit allowlist is the list of its four words.\<close>

type_synonym syscall_mask = "u64 list"

definition mask_empty :: syscall_mask where
  "mask_empty = replicate 4 0"

definition mask_all :: syscall_mask where
  "mask_all = replicate 4 (- 1)"

definition mask_allow :: "u64 \<Rightarrow> syscall_mask \<Rightarrow> syscall_mask" where
  "mask_allow nr m =
     (if nr < 256
      then m[unat (nr div 64) := m ! unat (nr div 64) OR push_bit (unat (nr mod 64)) 1]
      else m)"

definition mask_is_allowed :: "syscall_mask \<Rightarrow> u64 \<Rightarrow> bool" where
  "mask_is_allowed m nr =
     (if 256 \<le> nr then False
      else m ! unat (nr div 64) AND push_bit (unat (nr mod 64)) 1 \<noteq> 0)"

definition strict_mask :: syscall_mask where
  "strict_mask = fold mask_allow [0, 1, 15, 60, 231] mask_empty"

record seccomp_state =
  sc_mode :: seccomp_mode
  sc_mask :: syscall_mask

record seccomp_st = audit_st +
  seccomp_states :: "u64 \<rightharpoonup> seccomp_state"

definition set_strict :: "u64 \<Rightarrow> 'a seccomp_st_scheme \<Rightarrow> 'a seccomp_st_scheme" where
  "set_strict pid s =
     s\<lparr>seccomp_states := (seccomp_states s)(pid \<mapsto> \<lparr>sc_mode = Strict, sc_mask = strict_mask\<rparr>)\<rparr>"


definition seccomp_disable :: "u64 \<Rightarrow> 'a seccomp_st_scheme \<Rightarrow> 'a seccomp_st_scheme" where
  "seccomp_disable pid s = s\<lparr>seccomp_states := (seccomp_states s)(pid := None)\<rparr>"

definition seccomp_check :: "u64 \<Rightarrow> u64 \<Rightarrow> 'a seccomp_st_scheme \<Rightarrow> bool \<times> 'a seccomp_st_scheme" where
  "seccomp_check pid nr s =
     (if pid = 0 then (True, s)
      else
        (case seccomp_states s pid of
           None \<Rightarrow> (True, s)
         | Some st \<Rightarrow>
             (case sc_mode st of
                Disabled \<Rightarrow> (True, s)
              | _ \<Rightarrow>
                  if mask_is_allowed (sc_mask st) nr then (True, s)
                  else (False, log_denied_syscall pid nr ''seccomp'' s))))"

definition seccomp_mode_of :: "u64 \<Rightarrow> 'a seccomp_st_scheme \<Rightarrow> seccomp_mode" where
  "seccomp_mode_of pid s =
     (case seccomp_states s pid of Some st \<Rightarrow> sc_mode st | None \<Rightarrow> Disabled)"

definition handle_prctl_set_seccomp ::
  "u64 \<Rightarrow> u64 \<Rightarrow> 'a seccomp_st_scheme \<Rightarrow> u64 \<times> 'a seccomp_st_scheme" where
  "handle_prctl_set_seccomp pid md s =
     (if md = SECCOMP_MODE_DISABLED then (0, seccomp_disable pid s)
      else if md = SECCOMP_MODE_STRICT then (0, set_strict pid s)
      else (- 1, s))"

section \<open>The reference monitor contract\<close>

text \<open>
  A check decides by the policy alone and never changes it; an allowed request leaves no trace
  and every denial is counted in the audit log.
\<close>

locale reference_monitor =
  fixes check :: "'q \<Rightarrow> 'a audit_st_scheme \<Rightarrow> bool \<times> 'a audit_st_scheme"
    and policy :: "'a audit_st_scheme \<Rightarrow> 'p" and allowed :: "'p \<Rightarrow> 'q \<Rightarrow> bool"
  assumes decision: "fst (check q s) = allowed (policy s) q"
    and policy_kept: "policy (snd (check q s)) = policy s"
    and allow_silent: "fst (check q s) \<Longrightarrow> snd (check q s) = s"
    and deny_counted: "\<not> fst (check q s) \<Longrightarrow> audit_total (snd (check q s)) = audit_total s + 1"

text \<open>A sequence of requests, with the list of decisions.\<close>

fun run_checks :: "('q \<Rightarrow> 's \<Rightarrow> bool \<times> 's) \<Rightarrow> 'q list \<Rightarrow> 's \<Rightarrow> bool list \<times> 's" where
  "run_checks check [] s = ([], s)"
| "run_checks check (q # qs) s =
     (let (b, s) = check q s; (bs, s) = run_checks check qs s in (b # bs, s))"

text \<open>Two checks in sequence, the second only when the first allows.\<close>

definition and_then :: "('q \<Rightarrow> 's \<Rightarrow> bool \<times> 's) \<Rightarrow> ('q \<Rightarrow> 's \<Rightarrow> bool \<times> 's) \<Rightarrow> 'q \<Rightarrow> 's \<Rightarrow> bool \<times> 's" where
  "and_then f g q s = (case f q s of (False, s) \<Rightarrow> (False, s) | (True, s) \<Rightarrow> g q s)"

context reference_monitor
begin

lemma run_decisions:
  "fst (run_checks check qs s) = map (allowed (policy s)) qs
   \<and> policy (snd (run_checks check qs s)) = policy s
   \<and> audit_total (snd (run_checks check qs s)) =
       audit_total s + of_nat (length (filter (\<lambda>q. \<not> allowed (policy s) q) qs))"
proof (induction qs arbitrary: s)
  case (Cons q qs)
  obtain b s1 where c: "check q s = (b, s1)" by fastforce
  obtain bs s2 where r: "run_checks check qs s1 = (bs, s2)" by fastforce
  have "b = allowed (policy s) q" "policy s1 = policy s"
      "audit_total s1 = (if b then audit_total s else audit_total s + 1)"
    using decision [of q s] policy_kept [of q s] allow_silent [of q s] deny_counted [of q s] c
    by auto
  with Cons [of s1] c r show ?case by (auto simp: add_ac)
qed simp

end

locale two_monitors =
  m1: reference_monitor check1 policy1 allowed1 + m2: reference_monitor check2 policy2 allowed2
  for check1 :: "'q \<Rightarrow> 'a audit_st_scheme \<Rightarrow> bool \<times> 'a audit_st_scheme" and policy1 :: "_ \<Rightarrow> 'p"
    and allowed1 and check2 :: "'q \<Rightarrow> 'a audit_st_scheme \<Rightarrow> bool \<times> 'a audit_st_scheme"
    and policy2 :: "_ \<Rightarrow> 'r" and allowed2 +
  assumes frame1: "policy1 (snd (check2 q s)) = policy1 s"
    and frame2: "policy2 (snd (check1 q s)) = policy2 s"
begin

sublocale both: reference_monitor "and_then check1 check2" "\<lambda>s. (policy1 s, policy2 s)"
    "\<lambda>(p, r) q. allowed1 p q \<and> allowed2 r q"
proof
  fix q s
  obtain b s1 where c1: "check1 q s = (b, s1)" by fastforce
  note l1 = m1.decision [of q s] m1.policy_kept [of q s] m1.allow_silent [of q s]
    m1.deny_counted [of q s] frame2 [of q s]
  note l2 = m2.decision [of q s] m2.policy_kept [of q s] m2.allow_silent [of q s]
    m2.deny_counted [of q s] frame1 [of q s]
  show "fst (and_then check1 check2 q s) = (case (policy1 s, policy2 s) of (p, r) \<Rightarrow> \<lambda>q. allowed1 p q \<and> allowed2 r q) q"
    "(policy1 (snd (and_then check1 check2 q s)), policy2 (snd (and_then check1 check2 q s))) = (policy1 s, policy2 s)"
    using l1 l2 c1 by (cases b; simp add: and_then_def)+
  show "snd (and_then check1 check2 q s) = s" if "fst (and_then check1 check2 q s)"
    using that l1 l2 c1 by (cases b) (simp_all add: and_then_def)
  show "audit_total (snd (and_then check1 check2 q s)) = audit_total s + 1"
    if "\<not> fst (and_then check1 check2 q s)"
    using that l1 l2 c1 by (cases b) (simp_all add: and_then_def)
qed

end

section \<open>The filter as a monitor\<close>

definition seccomp_allows :: "(u64 \<rightharpoonup> seccomp_state) \<Rightarrow> u64 \<times> u64 \<Rightarrow> bool" where
  "seccomp_allows states = (\<lambda>(pid, nr).
     pid = 0 \<or> (case states pid of None \<Rightarrow> True
       | Some st \<Rightarrow> sc_mode st = Disabled \<or> mask_is_allowed (sc_mask st) nr))"

lemma audit_total_log [simp]: "audit_total (audit_log e s) = audit_total s + 1"
  by (simp add: audit_log_def Let_def)

lemma seccomp_states_log [simp]: "seccomp_states (audit_log e s) = seccomp_states s"
  by (simp add: audit_log_def Let_def)

lemma audit_bounded: "length (audit_entries s) \<le> MAX_ENTRIES \<Longrightarrow>
    length (audit_entries (audit_log e s)) \<le> MAX_ENTRIES"
  by (auto simp: audit_log_def Let_def MAX_ENTRIES_def)

interpretation seccomp: reference_monitor "\<lambda>(pid, nr). seccomp_check pid nr" seccomp_states seccomp_allows
  by unfold_locales
    (auto simp: seccomp_check_def seccomp_allows_def log_denied_syscall_def
      split: option.splits seccomp_mode.splits if_splits)


lemma length_mask_allow [simp]: "length (mask_allow nr m) = length m"
  by (simp add: mask_allow_def)






section \<open>Properties of the filter\<close>



text \<open>
  A process in strict mode can leave it: the prctl call that a user process makes with the
  mode zero removes its filter, and afterwards every system call passes.
\<close>

theorem seccomp_self_disable:
  "handle_prctl_set_seccomp pid 0 (set_strict pid s) = (0, seccomp_disable pid s)
   \<and> fst (seccomp_check pid nr (seccomp_disable pid s))"
  by (simp add: handle_prctl_set_seccomp_def SECCOMP_MODE_DISABLED_def seccomp_disable_def
      set_strict_def seccomp_check_def)

end
