(* ===== verification/Sec_Caps.thy ===== *)
theory Sec_Caps
  imports Sec_Audit
begin

text \<open>
  The capability tokens of Smart OS (\<open>kernel/src/security/capabilities.rs\<close>) and the Linux-style
  capability sets (\<open>kernel/src/security/linux_caps.rs\<close>). Every operation takes and returns the
  security state; a check appends to the audit log when it denies.
\<close>

unbundle bit_operations_syntax

section \<open>Tokens\<close>

datatype smart_cap =
    VfsReadProtected | VfsWrite | VfsMutate | VfsRawDisk | VfsMount
  | NetBindPrivileged | NetRaw | NetConnect | NetUdp | NetDns | NetAdmin
  | SysExec | SysFork | SysKill | SysNice | SysModules | SysAuditRead | SysBoot | SysMmap
  | IpcPort | IpcSend
  | DbgTrace | DbgPerf

fun cap_nr :: "smart_cap \<Rightarrow> nat" where
  "cap_nr VfsReadProtected = 0"
| "cap_nr VfsWrite = 1"
| "cap_nr VfsMutate = 2"
| "cap_nr VfsRawDisk = 3"
| "cap_nr VfsMount = 4"
| "cap_nr NetBindPrivileged = 8"
| "cap_nr NetRaw = 9"
| "cap_nr NetConnect = 10"
| "cap_nr NetUdp = 11"
| "cap_nr NetDns = 12"
| "cap_nr NetAdmin = 13"
| "cap_nr SysExec = 16"
| "cap_nr SysFork = 17"
| "cap_nr SysKill = 18"
| "cap_nr SysNice = 19"
| "cap_nr SysModules = 20"
| "cap_nr SysAuditRead = 21"
| "cap_nr SysBoot = 22"
| "cap_nr SysMmap = 23"
| "cap_nr IpcPort = 24"
| "cap_nr IpcSend = 25"
| "cap_nr DbgTrace = 32"
| "cap_nr DbgPerf = 33"

definition smart_cap_bit :: "smart_cap \<Rightarrow> u64" where
  "smart_cap_bit c = push_bit (cap_nr c) 1"

fun cap_name :: "smart_cap \<Rightarrow> string" where
  "cap_name VfsReadProtected = ''VfsReadProtected''"
| "cap_name VfsWrite = ''VfsWrite''"
| "cap_name VfsMutate = ''VfsMutate''"
| "cap_name VfsRawDisk = ''VfsRawDisk''"
| "cap_name VfsMount = ''VfsMount''"
| "cap_name NetBindPrivileged = ''NetBindPrivileged''"
| "cap_name NetRaw = ''NetRaw''"
| "cap_name NetConnect = ''NetConnect''"
| "cap_name NetUdp = ''NetUdp''"
| "cap_name NetDns = ''NetDns''"
| "cap_name NetAdmin = ''NetAdmin''"
| "cap_name SysExec = ''SysExec''"
| "cap_name SysFork = ''SysFork''"
| "cap_name SysKill = ''SysKill''"
| "cap_name SysNice = ''SysNice''"
| "cap_name SysModules = ''SysModules''"
| "cap_name SysAuditRead = ''SysAuditRead''"
| "cap_name SysBoot = ''SysBoot''"
| "cap_name SysMmap = ''SysMmap''"
| "cap_name IpcPort = ''IpcPort''"
| "cap_name IpcSend = ''IpcSend''"
| "cap_name DbgTrace = ''DbgTrace''"
| "cap_name DbgPerf = ''DbgPerf''"

section \<open>Grants\<close>

record cap_grants =
  granted :: u64
  inheritable :: bool
  glabel :: string

definition grants_all :: cap_grants where
  "grants_all = \<lparr>granted = - 1, inheritable = True, glabel = ''root''\<rparr>"

definition user_default :: cap_grants where
  "user_default =
     \<lparr>granted = smart_cap_bit NetConnect OR smart_cap_bit NetUdp OR smart_cap_bit NetDns
        OR smart_cap_bit SysExec OR smart_cap_bit SysFork OR smart_cap_bit SysNice
        OR smart_cap_bit IpcSend OR smart_cap_bit SysMmap,
      inheritable = False, glabel = ''user''\<rparr>"


definition grants_has :: "cap_grants \<Rightarrow> smart_cap \<Rightarrow> bool" where
  "grants_has g cap \<longleftrightarrow> granted g AND smart_cap_bit cap \<noteq> 0"

definition grants_grant :: "smart_cap \<Rightarrow> cap_grants \<Rightarrow> cap_grants" where
  "grants_grant cap g = g\<lparr>granted := granted g OR smart_cap_bit cap\<rparr>"


definition grants_grant_all :: "cap_grants \<Rightarrow> cap_grants" where
  "grants_grant_all g = g\<lparr>granted := - 1\<rparr>"

definition grants_revoke_all :: "cap_grants \<Rightarrow> cap_grants" where
  "grants_revoke_all g = g\<lparr>granted := 0\<rparr>"

section \<open>The grant table\<close>

record cap_set =
  cs_effective :: u64
  cs_permitted :: u64
  cs_inheritable :: u64

record caps_st = seccomp_st +
  cap_table :: "u64 \<rightharpoonup> cap_grants"
  capsets :: "u64 \<rightharpoonup> cap_set"

definition cap_assign :: "u64 \<Rightarrow> cap_grants \<Rightarrow> 'a caps_st_scheme \<Rightarrow> 'a caps_st_scheme" where
  "cap_assign pid g s = s\<lparr>cap_table := (cap_table s)(pid \<mapsto> g)\<rparr>"


definition cap_remove :: "u64 \<Rightarrow> 'a caps_st_scheme \<Rightarrow> 'a caps_st_scheme" where
  "cap_remove pid s = s\<lparr>cap_table := (cap_table s)(pid := None)\<rparr>"

definition audit_deny :: "u64 \<Rightarrow> smart_cap \<Rightarrow> string \<Rightarrow> 'a caps_st_scheme \<Rightarrow> 'a caps_st_scheme" where
  "audit_deny pid cap ctxt s =
     audit_log (''CAP_DENY pid='' @ show_nat (unat pid) @ '' cap='' @ cap_name cap @ '' ctx='' @ ctxt) s"

definition cap_check_raw :: "u64 \<Rightarrow> smart_cap \<Rightarrow> 'a caps_st_scheme \<Rightarrow> bool" where
  "cap_check_raw pid cap s =
     (if pid = 0 then True
      else (case cap_table s pid of Some g \<Rightarrow> grants_has g cap | None \<Rightarrow> True))"

definition cap_grant :: "u64 \<Rightarrow> u64 \<Rightarrow> smart_cap \<Rightarrow> 'a caps_st_scheme \<Rightarrow> (string + unit) \<times> 'a caps_st_scheme" where
  "cap_grant caller_pid target_pid cap s =
     (if caller_pid \<noteq> 0 \<and> \<not> cap_check_raw caller_pid SysModules s
      then (Inl ''EPERM'', audit_deny caller_pid cap ''grant-requires-SysModules'' s)
      else
        (let g = (case cap_table s target_pid of Some g \<Rightarrow> g | None \<Rightarrow> user_default)
         in (Inr (), s\<lparr>cap_table := (cap_table s)(target_pid \<mapsto> grants_grant cap g)\<rparr>)))"


definition get_grants :: "u64 \<Rightarrow> 'a caps_st_scheme \<Rightarrow> cap_grants" where
  "get_grants pid s =
     (if pid = 0 then grants_all
      else (case cap_table s pid of Some g \<Rightarrow> g | None \<Rightarrow> user_default))"

definition cap_check :: "u64 \<Rightarrow> smart_cap \<Rightarrow> 'a caps_st_scheme \<Rightarrow> (string + unit) \<times> 'a caps_st_scheme" where
  "cap_check pid cap s =
     (if pid = 0 then (Inr (), s)
      else
        (let gr = (case cap_table s pid of Some g \<Rightarrow> grants_has g cap | None \<Rightarrow> True) in
         if gr then (Inr (), s)
         else (Inl ''EPERM: capability denied'', audit_deny pid cap ''cap_check'' s)))"

section \<open>Files, network and system calls\<close>

datatype vfs_op = OpRead | OpWrite | OpCreate | OpDelete | OpMount

definition PROTECTED_PREFIXES :: "string list" where
  "PROTECTED_PREFIXES =
     [''/system/'', ''/boot/'', ''/kernel/'', ''/etc/passwd'', ''/etc/shadow'']"

definition is_protected :: "string \<Rightarrow> bool" where
  "is_protected path = list_ex (\<lambda>pfx. starts_with path pfx) PROTECTED_PREFIXES"

fun vfs_cap_check :: "u64 \<Rightarrow> string \<Rightarrow> vfs_op \<Rightarrow> 'a caps_st_scheme \<Rightarrow> (string + unit) \<times> 'a caps_st_scheme" where
  "vfs_cap_check pid path op s =
     (if pid = 0 then (Inr (), s)
      else
        (case op of
           OpRead \<Rightarrow>
             if is_protected path then cap_check pid VfsReadProtected s else (Inr (), s)
         | OpWrite \<Rightarrow>
             if is_protected path
             then sbind (cap_check pid VfsReadProtected s) (\<lambda>_ s. cap_check pid VfsWrite s)
             else cap_check pid VfsWrite s
         | OpCreate \<Rightarrow> cap_check pid VfsMutate s
         | OpDelete \<Rightarrow> cap_check pid VfsMutate s
         | OpMount \<Rightarrow> cap_check pid VfsMount s))"

datatype net_op = TcpConnect | UdpSend | UdpBind | Dns | RawSend | AdminConfig

fun net_cap_check :: "u64 \<Rightarrow> net_op \<Rightarrow> u16 \<Rightarrow> 'a caps_st_scheme \<Rightarrow> (string + unit) \<times> 'a caps_st_scheme" where
  "net_cap_check pid op port s =
     (if pid = 0 then (Inr (), s)
      else
        (case op of
           TcpConnect \<Rightarrow> cap_check pid NetConnect s
         | UdpSend \<Rightarrow> cap_check pid NetUdp s
         | UdpBind \<Rightarrow>
             if port < 1024
             then sbind (cap_check pid NetBindPrivileged s) (\<lambda>_ s. cap_check pid NetUdp s)
             else cap_check pid NetUdp s
         | Dns \<Rightarrow> cap_check pid NetDns s
         | RawSend \<Rightarrow> cap_check pid NetRaw s
         | AdminConfig \<Rightarrow> cap_check pid NetAdmin s))"

text \<open>
  System-call numbers: exit, yield, spawn, getpid, sleep, fork, exec, waitpid, mmap, pipe are
  0 to 9, IPC is 10 to 13, files are 20 to 26, network is 30 to 39, kill is 41, USB is 50, 52
  and 53, dup2 is 56.
\<close>

definition required_cap_for_syscall :: "u64 \<Rightarrow> smart_cap option" where
  "required_cap_for_syscall nr =
     (if nr \<in> {0, 1, 3, 4, 21, 22, 23, 24, 25, 56, 11, 13, 39, 37, 38} then None
      else if nr = 5 then Some SysFork
      else if nr \<in> {6, 2} then Some SysExec
      else if nr = 7 then None
      else if nr = 41 then Some SysKill
      else if nr = 8 then Some SysMmap
      else if nr = 9 then None
      else if nr \<in> {20, 26} then None
      else if nr \<in> {30, 31} then Some NetUdp
      else if nr = 32 then Some NetUdp
      else if nr = 33 then Some NetConnect
      else if nr \<in> {34, 35} then Some NetConnect
      else if nr = 36 then Some NetConnect
      else if nr \<in> {10, 12} then Some IpcSend
      else if nr \<in> {52, 53, 50} then Some VfsRawDisk
      else Some SysModules)"

definition syscall_cap_check :: "u64 \<Rightarrow> u64 \<Rightarrow> 'a caps_st_scheme \<Rightarrow> (string + unit) \<times> 'a caps_st_scheme" where
  "syscall_cap_check pid nr s =
     (if pid = 0 then (Inr (), s)
      else
        (case seccomp_check pid nr s of
           (False, s) \<Rightarrow> (Inl ''EPERM: seccomp blocked'', s)
         | (True, s) \<Rightarrow>
             (case required_cap_for_syscall nr of
                Some cap \<Rightarrow> sbind (cap_check pid cap s) (\<lambda>_ s. (Inr (), s))
              | None \<Rightarrow> (Inr (), s))))"


definition list_grants :: "'a caps_st_scheme \<Rightarrow> (u64 \<times> string \<times> nat) list" where
  "list_grants s =
     map (\<lambda>pid. let g = the (cap_table s pid) in
            (pid, glabel g, length (filter (bit (granted g)) [0..<64])))
       (map_keys (cap_table s))"

definition caps_init :: "'a caps_st_scheme \<Rightarrow> 'a caps_st_scheme" where
  "caps_init s = cap_assign 1 grants_all s"

text \<open>The tables as the kernel image initialises them.\<close>

definition caps_reset :: caps_st where
  "caps_reset = \<lparr>audit_entries = [], audit_total = 0, seccomp_states = Map.empty,
     cap_table = Map.empty, capsets = Map.empty\<rparr>"

section \<open>Linux capability sets\<close>

definition CAP_SETPCAP :: u8 where "CAP_SETPCAP = 8"

definition CAP_NET_BIND_SERVICE :: u8 where "CAP_NET_BIND_SERVICE = 10"

definition CAP_SYS_NICE :: u8 where "CAP_SYS_NICE = 23"

text \<open>The shift of a \<open>u64\<close> takes its amount modulo 64.\<close>

definition linux_cap_bit :: "u8 \<Rightarrow> u64" where
  "linux_cap_bit cap = push_bit (unat cap mod 64) 1"

definition capset_all :: cap_set where
  "capset_all = \<lparr>cs_effective = - 1, cs_permitted = - 1, cs_inheritable = 0\<rparr>"

definition capset_none :: cap_set where
  "capset_none = \<lparr>cs_effective = 0, cs_permitted = 0, cs_inheritable = 0\<rparr>"

definition non_root_default :: cap_set where
  "non_root_default =
     (let keep = linux_cap_bit CAP_NET_BIND_SERVICE OR linux_cap_bit CAP_SYS_NICE
      in \<lparr>cs_effective = keep, cs_permitted = keep, cs_inheritable = 0\<rparr>)"

definition capset_has :: "cap_set \<Rightarrow> u8 \<Rightarrow> bool" where
  "capset_has cs cap \<longleftrightarrow> cs_effective cs AND linux_cap_bit cap \<noteq> 0"

definition linux_assign :: "u64 \<Rightarrow> cap_set \<Rightarrow> 'a caps_st_scheme \<Rightarrow> 'a caps_st_scheme" where
  "linux_assign pid caps s = s\<lparr>capsets := (capsets s)(pid \<mapsto> caps)\<rparr>"

definition linux_remove :: "u64 \<Rightarrow> 'a caps_st_scheme \<Rightarrow> 'a caps_st_scheme" where
  "linux_remove pid s = s\<lparr>capsets := (capsets s)(pid := None)\<rparr>"

definition has_cap :: "u64 \<Rightarrow> u8 \<Rightarrow> 'a caps_st_scheme \<Rightarrow> bool" where
  "has_cap pid cap s =
     (if pid = 0 then True
      else (case capsets s pid of Some cs \<Rightarrow> capset_has cs cap | None \<Rightarrow> True))"

definition capget :: "u64 \<Rightarrow> 'a caps_st_scheme \<Rightarrow> cap_set" where
  "capget pid s =
     (if pid = 0 then capset_all
      else (case capsets s pid of Some cs \<Rightarrow> cs | None \<Rightarrow> capset_all))"

definition capset :: "u64 \<Rightarrow> u64 \<Rightarrow> cap_set \<Rightarrow> 'a caps_st_scheme \<Rightarrow> (string + unit) \<times> 'a caps_st_scheme" where
  "capset target_pid caller_pid caps s =
     (if caller_pid \<noteq> 0 \<and> \<not> has_cap caller_pid CAP_SETPCAP s
      then (Inl ''EPERM: need CAP_SETPCAP'', log_cap_denied caller_pid CAP_SETPCAP s)
      else (Inr (), s\<lparr>capsets := (capsets s)(target_pid \<mapsto> caps)\<rparr>))"

definition drop_for_non_root :: "u64 \<Rightarrow> u32 \<Rightarrow> 'a caps_st_scheme \<Rightarrow> 'a caps_st_scheme" where
  "drop_for_non_root pid uid s =
     (if uid \<noteq> 0 then s\<lparr>capsets := (capsets s)(pid \<mapsto> non_root_default)\<rparr> else s)"

section \<open>Bits\<close>

lemma cap_nr_less: "cap_nr c < 64"
  by (cases c) simp_all

lemma cap_nr_inj [simp]: "cap_nr c = cap_nr d \<longleftrightarrow> c = d"
  by (cases c; cases d) simp_all

lemma grants_has_bit: "grants_has g c \<longleftrightarrow> bit (granted g) (cap_nr c)"
  by (simp add: grants_has_def smart_cap_bit_def push_bit_of_1 and_exp_eq_0_iff_not_bit)

lemma bit_smart_cap_bit: "bit (smart_cap_bit c) (cap_nr d) \<longleftrightarrow> c = d"
  using cap_nr_less [of d] cap_nr_less [of c]
  by (auto simp: smart_cap_bit_def bit_simps simp del: push_bit_of_1)

lemma grants_has_grant: "grants_has (grants_grant c g) d \<longleftrightarrow> d = c \<or> grants_has g d"
  by (auto simp: grants_has_bit grants_grant_def bit_or_iff bit_smart_cap_bit)


lemma user_default_has:
  "grants_has user_default c \<longleftrightarrow>
     c \<in> {NetConnect, NetUdp, NetDns, SysExec, SysFork, SysNice, IpcSend, SysMmap}"
  by (auto simp: grants_has_bit user_default_def bit_or_iff bit_smart_cap_bit)

section \<open>Checks as monitors\<close>

definition is_ok :: "'e + 'a \<Rightarrow> bool" where
  "is_ok r = (case r of Inl _ \<Rightarrow> False | Inr _ \<Rightarrow> True)"

definition cap_allows :: "(u64 \<rightharpoonup> cap_grants) \<Rightarrow> u64 \<times> smart_cap \<Rightarrow> bool" where
  "cap_allows tab = (\<lambda>(pid, cap).
     pid = 0 \<or> (case tab pid of None \<Rightarrow> True | Some g \<Rightarrow> grants_has g cap))"

definition cap_decide :: "u64 \<times> smart_cap \<Rightarrow> 'a caps_st_scheme \<Rightarrow> bool \<times> 'a caps_st_scheme" where
  "cap_decide = (\<lambda>(pid, cap) s. apfst is_ok (cap_check pid cap s))"

lemma caps_frame [simp]:
  "cap_table (audit_log e s) = cap_table s" "capsets (audit_log e s) = capsets s"
  by (simp_all add: audit_log_def Let_def)

interpretation caps: reference_monitor cap_decide cap_table cap_allows
  by unfold_locales
    (auto simp: cap_decide_def cap_check_def cap_allows_def is_ok_def audit_deny_def Let_def
      split: option.splits if_splits)

text \<open>The two halves of the system-call check on requests of a process and a number.\<close>

definition seccomp_part :: "u64 \<times> u64 \<Rightarrow> 'a caps_st_scheme \<Rightarrow> bool \<times> 'a caps_st_scheme" where
  "seccomp_part = (\<lambda>(pid, nr). seccomp_check pid nr)"

definition cap_part :: "u64 \<times> u64 \<Rightarrow> 'a caps_st_scheme \<Rightarrow> bool \<times> 'a caps_st_scheme" where
  "cap_part = (\<lambda>(pid, nr) s. case required_cap_for_syscall nr of
     None \<Rightarrow> (True, s) | Some cap \<Rightarrow> cap_decide (pid, cap) s)"

definition cap_part_allows :: "(u64 \<rightharpoonup> cap_grants) \<Rightarrow> u64 \<times> u64 \<Rightarrow> bool" where
  "cap_part_allows tab = (\<lambda>(pid, nr). case required_cap_for_syscall nr of
     None \<Rightarrow> True | Some cap \<Rightarrow> cap_allows tab (pid, cap))"

interpretation syscalls: two_monitors seccomp_part seccomp_states seccomp_allows
    cap_part cap_table cap_part_allows
proof
  fix q :: "u64 \<times> u64" and s :: "'b caps_st_scheme"
  obtain pid nr where q: "q = (pid, nr)" by fastforce
  note m = seccomp.decision [of q s] seccomp.policy_kept [of q s] seccomp.allow_silent [of q s]
    seccomp.deny_counted [of q s]
  show "fst (seccomp_part q s) = seccomp_allows (seccomp_states s) q"
    "seccomp_states (snd (seccomp_part q s)) = seccomp_states s"
    "fst (seccomp_part q s) \<Longrightarrow> snd (seccomp_part q s) = s"
    "\<not> fst (seccomp_part q s) \<Longrightarrow> audit_total (snd (seccomp_part q s)) = audit_total s + 1"
    using m by (simp_all add: seccomp_part_def q)
  have c: "fst (cap_decide (pid, cap) s) = cap_allows (cap_table s) (pid, cap)"
    "cap_table (snd (cap_decide (pid, cap) s)) = cap_table s"
    "fst (cap_decide (pid, cap) s) \<Longrightarrow> snd (cap_decide (pid, cap) s) = s"
    "\<not> fst (cap_decide (pid, cap) s) \<Longrightarrow> audit_total (snd (cap_decide (pid, cap) s)) = audit_total s + 1" for cap
    by (rule caps.decision caps.policy_kept caps.allow_silent caps.deny_counted, assumption?)+
  show "fst (cap_part q s) = cap_part_allows (cap_table s) q"
    "cap_table (snd (cap_part q s)) = cap_table s"
    "fst (cap_part q s) \<Longrightarrow> snd (cap_part q s) = s"
    "\<not> fst (cap_part q s) \<Longrightarrow> audit_total (snd (cap_part q s)) = audit_total s + 1"
    using c by (auto simp: cap_part_def cap_part_allows_def q split: option.splits)
  show "seccomp_states (snd (cap_part q s)) = seccomp_states s"
    by (auto simp: cap_part_def cap_decide_def cap_check_def audit_deny_def q Let_def
        split: option.splits)
  show "cap_table (snd (seccomp_part q s)) = cap_table s"
    by (auto simp: seccomp_part_def seccomp_check_def log_denied_syscall_def q
        split: option.splits seccomp_mode.splits)
qed

lemma sbind_unit: "sbind m (\<lambda>_ s. (Inr (), s)) = m"
  for m :: "(string + unit) \<times> 's"
  by (cases m; cases "fst m") auto

lemma syscall_check_split:
  "apfst is_ok (syscall_cap_check pid nr s) = and_then seccomp_part cap_part (pid, nr) s"
proof (cases "pid = 0")
  case True
  then show ?thesis
    by (simp add: syscall_cap_check_def and_then_def seccomp_part_def cap_part_def cap_decide_def
        cap_check_def seccomp_check_def is_ok_def split: option.splits)
next
  case False
  then show ?thesis
    by (simp add: syscall_cap_check_def and_then_def seccomp_part_def cap_part_def cap_decide_def
        sbind_unit is_ok_def split: option.splits prod.splits bool.splits)
qed

section \<open>Properties of the capability system\<close>

text \<open>
  C17: complete mediation of system calls. In any sequence of checked system calls the decision on
  each is the one the tables prescribe at the start: the kernel process passes, any other needs
  its filter to allow the number and, where the number requires a capability, the grant. The
  checks change no table, and every denial, and nothing else, is counted in the audit log.
\<close>

theorem syscall_mediation:
  "case run_checks (\<lambda>(pid, nr) s. apfst is_ok (syscall_cap_check pid nr s)) reqs s of (decisions, s') \<Rightarrow>
     decisions = map (\<lambda>(pid, nr). seccomp_allows (seccomp_states s) (pid, nr)
         \<and> cap_part_allows (cap_table s) (pid, nr)) reqs
     \<and> cap_table s' = cap_table s \<and> seccomp_states s' = seccomp_states s
     \<and> audit_total s' = audit_total s + of_nat (length (filter Not decisions))"
proof -
  have eq: "(\<lambda>(pid, nr) s. apfst is_ok (syscall_cap_check pid nr s)) = and_then seccomp_part cap_part"
    by (simp add: fun_eq_iff syscall_check_split)
  obtain ds s' where run: "run_checks (and_then seccomp_part cap_part) reqs s = (ds, s')" by fastforce
  have "ds = map (\<lambda>q. seccomp_allows (seccomp_states s) q \<and> cap_part_allows (cap_table s) q) reqs"
    "cap_table s' = cap_table s" "seccomp_states s' = seccomp_states s"
    "audit_total s' = audit_total s + of_nat (length (filter (\<lambda>q. \<not> (seccomp_allows (seccomp_states s) q
      \<and> cap_part_allows (cap_table s) q)) reqs))"
    using syscalls.both.run_decisions [of reqs s] run by simp_all
  then show ?thesis
    unfolding eq run by (auto simp: filter_map comp_def split: prod.splits)
qed



text \<open>
  A process that was never registered passes every capability check although its reported
  grants are the user defaults, and granting it one capability takes the others away.
\<close>

theorem unregistered_process_unrestricted:
  assumes "pid \<noteq> 0" "cap_table s pid = None"
  shows "is_ok (fst (cap_check pid NetRaw s)) \<and> \<not> grants_has (get_grants pid s) NetRaw
    \<and> \<not> is_ok (fst (cap_check pid NetRaw (snd (cap_grant 0 pid IpcPort s))))"
  using assms
  by (simp add: cap_check_def is_ok_def get_grants_def cap_grant_def user_default_has grants_has_grant)

theorem unregistered_process_unrestricted_witness:
  "is_ok (fst (cap_check 5 NetRaw caps_reset))"
  using unregistered_process_unrestricted [of 5 caps_reset] by (simp add: caps_reset_def)



end
