(* ===== verification/Sec_Sandbox.thy ===== *)
theory Sec_Sandbox
  imports Sec_Caps
begin

text \<open>
  Per-process sandbox profiles (\<open>kernel/src/security/sandbox.rs\<close>), process namespaces
  (\<open>namespace.rs\<close>), the system policy (\<open>policy.rs\<close>) and the software registry
  (\<open>registry.rs\<close>). The process table lookup of the sandbox, whether a process runs Linux code, is
  the parameter \<open>is_linux\<close>.
\<close>

unbundle bit_operations_syntax

section \<open>Sandbox profiles\<close>

definition CAP_PROCESS :: u64 where "CAP_PROCESS = push_bit 0 1"
definition CAP_IPC :: u64 where "CAP_IPC = push_bit 1 1"
definition CAP_FILESYSTEM :: u64 where "CAP_FILESYSTEM = push_bit 2 1"
definition CAP_NETWORK :: u64 where "CAP_NETWORK = push_bit 3 1"
definition CAP_MEMORY :: u64 where "CAP_MEMORY = push_bit 4 1"
definition CAP_DEVICE :: u64 where "CAP_DEVICE = push_bit 5 1"
definition CAP_KNOWLEDGE :: u64 where "CAP_KNOWLEDGE = push_bit 6 1"
definition CAP_SYSTEM :: u64 where "CAP_SYSTEM = push_bit 7 1"
definition CAP_ALL :: u64 where "CAP_ALL = 0xFF"
definition CAP_MINIMAL :: u64 where "CAP_MINIMAL = CAP_PROCESS OR CAP_SYSTEM"
definition CAP_DEFAULT :: u64 where "CAP_DEFAULT = CAP_ALL"

lemmas sandbox_caps = CAP_PROCESS_def CAP_IPC_def CAP_FILESYSTEM_def CAP_NETWORK_def CAP_MEMORY_def
  CAP_DEVICE_def CAP_KNOWLEDGE_def CAP_SYSTEM_def CAP_ALL_def

record sandbox_profile =
  sp_capabilities :: u64
  sp_denied_syscalls :: "nat list"
  sp_name :: string
  sp_deny_count :: u64

definition sandbox_profile_new :: "string \<Rightarrow> u64 \<Rightarrow> sandbox_profile" where
  "sandbox_profile_new name caps =
     \<lparr>sp_capabilities = caps, sp_denied_syscalls = [], sp_name = name, sp_deny_count = 0\<rparr>"

definition has_capability :: "u64 \<Rightarrow> sandbox_profile \<Rightarrow> bool" where
  "has_capability cap p = (sp_capabilities p AND cap \<noteq> 0)"

definition deny_syscall :: "nat \<Rightarrow> sandbox_profile \<Rightarrow> sandbox_profile" where
  "deny_syscall nr p =
     (if nr \<in> set (sp_denied_syscalls p) then p
      else p\<lparr>sp_denied_syscalls := sp_denied_syscalls p @ [nr]\<rparr>)"

type_synonym sandboxes = "u64 \<rightharpoonup> sandbox_profile"

definition create_sandbox :: "u64 \<Rightarrow> string \<Rightarrow> u64 \<Rightarrow> sandboxes \<Rightarrow> sandboxes" where
  "create_sandbox pid name caps m = m(pid \<mapsto> sandbox_profile_new name caps)"

definition remove_sandbox :: "u64 \<Rightarrow> sandboxes \<Rightarrow> sandboxes" where
  "remove_sandbox pid m = m(pid := None)"

definition linux_syscall_to_capability :: "nat \<Rightarrow> u64" where
  "linux_syscall_to_capability nr =
     (if nr \<in> set [60, 231, 57, 58, 56, 59, 61, 62, 234, 39, 110, 186] then CAP_PROCESS
      else if nr \<in> set [24, 35, 99] then CAP_SYSTEM
      else if nr \<in> set [22, 293] then CAP_IPC
      else if nr \<in> set [9, 11, 10, 25, 12, 319] then CAP_MEMORY
      else if nr \<in> set [41, 42, 43, 44, 45, 46, 47, 48, 49, 50, 51, 52, 54, 55, 288] then CAP_NETWORK
      else if nr \<in> set [0, 1, 2, 3, 4, 5, 6, 17, 18, 19, 20, 21, 32, 33, 83, 84, 85, 87, 89, 78, 217,
        257, 258, 262, 263, 267, 269, 292] then CAP_FILESYSTEM
      else CAP_ALL)"

text \<open>The numbers are the constants of \<open>kernel/src/syscall/table.rs\<close>, in the order of the source.\<close>

definition syscall_to_capability :: "nat \<Rightarrow> u64" where
  "syscall_to_capability nr =
     (if nr \<in> set [0, 2, 5, 6, 7, 3] then CAP_PROCESS
      else if nr \<in> set [1, 4] then CAP_SYSTEM
      else if nr \<in> set [10, 11, 12, 13, 9] then CAP_IPC
      else if nr \<in> set [20, 21, 22, 23, 24, 25, 26] then CAP_FILESYSTEM
      else if nr = 8 then CAP_MEMORY
      else if nr \<in> set [30, 31, 32, 33, 34, 35, 36, 37, 38, 39, 84, 85, 86, 87] then CAP_NETWORK
      else if nr \<in> set [40, 41, 42, 43] then CAP_KNOWLEDGE
      else if nr \<in> set [50, 51, 52, 53, 54, 55] then CAP_DEVICE
      else CAP_ALL)"

definition check_syscall :: "(u64 \<Rightarrow> bool) \<Rightarrow> u64 \<Rightarrow> nat \<Rightarrow> sandboxes \<Rightarrow> bool \<times> sandboxes" where
  "check_syscall is_linux pid nr m =
     (case m pid of
        None \<Rightarrow> (True, m)
      | Some p \<Rightarrow>
          if nr \<in> set (sp_denied_syscalls p)
          then (False, m(pid \<mapsto> p\<lparr>sp_deny_count := sp_deny_count p + 1\<rparr>))
          else
            let linux = (pid \<noteq> 0 \<and> is_linux pid);
                required = (if linux then linux_syscall_to_capability nr else syscall_to_capability nr)
            in if required = 0 \<or> has_capability required p then (True, m)
               else (False, m(pid \<mapsto> p\<lparr>sp_deny_count := sp_deny_count p + 1\<rparr>)))"

definition get_sandbox_info :: "u64 \<Rightarrow> sandboxes \<Rightarrow> (string \<times> u64 \<times> u64) option" where
  "get_sandbox_info pid m =
     map_option (\<lambda>p. (sp_name p, sp_capabilities p, sp_deny_count p)) (m pid)"

definition list_sandboxes :: "sandboxes \<Rightarrow> (u64 \<times> string \<times> u64 \<times> u64) list" where
  "list_sandboxes m =
     map (\<lambda>pid. let p = the (m pid) in (pid, sp_name p, sp_capabilities p, sp_deny_count p)) (map_keys m)"

definition set_capabilities :: "u64 \<Rightarrow> u64 \<Rightarrow> sandboxes \<Rightarrow> bool \<times> sandboxes" where
  "set_capabilities pid caps m =
     (case m pid of
        None \<Rightarrow> (False, m)
      | Some p \<Rightarrow> (True, m(pid \<mapsto> p\<lparr>sp_capabilities := caps\<rparr>)))"

definition sandbox_count :: "sandboxes \<Rightarrow> nat" where
  "sandbox_count m = map_len m"

fun join_bar :: "string list \<Rightarrow> string" where
  "join_bar [] = ''''"
| "join_bar [p] = p"
| "join_bar (p # ps) = p @ ''|'' @ join_bar ps"

definition format_caps :: "u64 \<Rightarrow> string" where
  "format_caps caps =
     (let parts = map snd (filter (\<lambda>(c, _). caps AND c \<noteq> 0)
        [(CAP_PROCESS, ''PROC''), (CAP_IPC, ''IPC''), (CAP_FILESYSTEM, ''FS''), (CAP_NETWORK, ''NET''),
         (CAP_MEMORY, ''MEM''), (CAP_DEVICE, ''DEV''), (CAP_KNOWLEDGE, ''KG''), (CAP_SYSTEM, ''SYS'')])
      in if parts = [] then ''NONE'' else join_bar parts)"

section \<open>Namespaces\<close>

definition GLOBAL_NS :: u32 where "GLOBAL_NS = 0"

record pid_ns =
  next_local_pid :: u32
  global_to_local :: "u64 \<rightharpoonup> u32"

record ns_state =
  next_ns :: u32
  pid_namespaces :: "u32 \<rightharpoonup> pid_ns"
  proc_ns :: "u64 \<rightharpoonup> u32"
  proc_vfs_root :: "u64 \<rightharpoonup> string"





definition process_namespace :: "u64 \<Rightarrow> ns_state \<Rightarrow> u32" where
  "process_namespace pid s = (case proc_ns s pid of None \<Rightarrow> GLOBAL_NS | Some i \<Rightarrow> i)"

definition set_vfs_root :: "u64 \<Rightarrow> string \<Rightarrow> ns_state \<Rightarrow> ns_state" where
  "set_vfs_root pid root s = s\<lparr>proc_vfs_root := (proc_vfs_root s)(pid \<mapsto> root)\<rparr>"

definition vfs_root :: "u64 \<Rightarrow> ns_state \<Rightarrow> string" where
  "vfs_root pid s = (case proc_vfs_root s pid of None \<Rightarrow> ''/'' | Some r \<Rightarrow> r)"


definition trim_end_matches :: "char \<Rightarrow> string \<Rightarrow> string" where
  "trim_end_matches c s = rev (dropWhile ((=) c) (rev s))"

definition resolve_path :: "u64 \<Rightarrow> string \<Rightarrow> ns_state \<Rightarrow> string" where
  "resolve_path pid path s =
     (let root = vfs_root pid s in
      if root = ''/'' \<or> starts_with path ''/'' then
        let root_trim = trim_end_matches (CHR ''/'') root in
        if root_trim = [] then path
        else if starts_with path root_trim then path
        else root_trim @ path
      else trim_end_matches (CHR ''/'') root @ ''/'' @ path)"

section \<open>System policy and software registry\<close>

record system_policy =
  usb_storage_enabled :: bool
  camera_enabled :: bool
  network_restricted :: bool
  max_processes_per_user :: nat

definition POLICY :: system_policy where
  "POLICY = \<lparr>usb_storage_enabled = True, camera_enabled = True, network_restricted = False,
     max_processes_per_user = 64\<rparr>"

definition policy_is_allowed :: "string \<Rightarrow> system_policy \<Rightarrow> bool" where
  "policy_is_allowed capability p =
     (if capability = ''usb_storage'' then usb_storage_enabled p
      else if capability = ''camera'' then camera_enabled p
      else if capability = ''unrestricted_net'' then \<not> network_restricted p
      else True)"

definition apply_policy :: "system_policy \<Rightarrow> system_policy \<Rightarrow> system_policy" where
  "apply_policy new_policy p = new_policy"

record software_manifest =
  sm_hash :: bytes
  sm_developer_id :: string
  sm_signatures :: "bytes list"
  sm_is_trusted :: bool

type_synonym ledger = "bytes \<rightharpoonup> software_manifest"

definition verify_executable :: "bytes \<Rightarrow> ledger \<Rightarrow> bool" where
  "verify_executable hash l =
     (case l hash of Some manifest \<Rightarrow> sm_is_trusted manifest | None \<Rightarrow> False)"

definition add_trusted_manifest :: "bytes \<Rightarrow> string \<Rightarrow> ledger \<Rightarrow> ledger" where
  "add_trusted_manifest hash dev_id l =
     l(hash \<mapsto> \<lparr>sm_hash = hash, sm_developer_id = dev_id, sm_signatures = [], sm_is_trusted = True\<rparr>)"

section \<open>Decisions of the sandbox\<close>

definition sandbox_allows :: "(u64 \<Rightarrow> bool) \<Rightarrow> sandboxes \<Rightarrow> u64 \<times> nat \<Rightarrow> bool" where
  "sandbox_allows is_linux m = (\<lambda>(pid, nr). case m pid of None \<Rightarrow> True | Some p \<Rightarrow>
     nr \<notin> set (sp_denied_syscalls p)
     \<and> has_capability (if pid \<noteq> 0 \<and> is_linux pid then linux_syscall_to_capability nr
                        else syscall_to_capability nr) p)"

lemma required_nonzero: "linux_syscall_to_capability nr \<noteq> 0" "syscall_to_capability nr \<noteq> 0"
  unfolding linux_syscall_to_capability_def syscall_to_capability_def sandbox_caps
  by simp_all

lemma check_syscall_cases:
  "check_syscall is_linux pid nr m =
     (if sandbox_allows is_linux m (pid, nr) then (True, m)
      else (False, m(pid \<mapsto> (the (m pid))\<lparr>sp_deny_count := sp_deny_count (the (m pid)) + 1\<rparr>)))"
  by (simp add: check_syscall_def sandbox_allows_def required_nonzero Let_def split: option.splits)




text \<open>
  One capability is enough for a system call the tables do not know, although the source asks
  for all of them: a process that may only yield and sleep passes a call with the number 200.
\<close>

theorem sandbox_unknown_syscall:
  "fst (check_syscall is_linux pid 200 (create_sandbox pid name CAP_SYSTEM m))
   \<and> \<not> fst (check_syscall is_linux pid 9 (create_sandbox pid name CAP_SYSTEM m))"
  by (simp add: check_syscall_cases sandbox_allows_def create_sandbox_def sandbox_profile_new_def
      has_capability_def linux_syscall_to_capability_def syscall_to_capability_def sandbox_caps)

section \<open>Namespaces keep processes apart\<close>






















text \<open>
  A path that a confined process resolves always begins with the text of its root.
\<close>

theorem resolve_path_prefix:
  "starts_with (resolve_path pid path s) (trim_end_matches (CHR ''/'') (vfs_root pid s))"
  by (auto simp: resolve_path_def starts_with_def Let_def)

text \<open>
  The comparison with the root is one of texts, not of path components: a process confined to
  \<open>/jail\<close> reaches the sibling directory \<open>/jail2\<close> with an absolute path, while other paths are
  moved below the root.
\<close>

theorem resolve_path_sibling_escape:
  "resolve_path pid ''/jail2/secret'' (set_vfs_root pid ''/jail'' s) = ''/jail2/secret''
   \<and> resolve_path pid ''/etc'' (set_vfs_root pid ''/jail'' s) = ''/jail/etc''"
  by (simp add: resolve_path_def set_vfs_root_def vfs_root_def trim_end_matches_def starts_with_def)

end
