(* ===== verification/Proc_Process.thy ===== *)
theory Proc_Process
  imports Proc_Fd Proc_Sched Sec_Sandbox
begin

text \<open>
  Processes (\<open>kernel/src/process/process.rs\<close>), signals (\<open>signal.rs\<close>, \<open>sigdeliver.rs\<close>) and the process
  system calls of \<open>arch/x86_64/syscall_entry.rs\<close>, over the scheduler, the descriptor tables, the
  working directories, the sandboxes and the Linux capability sets: the composition of the
  process components. Page tables are the addresses of their root frames; the user identifier of
  the session and the root of the child's address space are parameters. The clean-up of windows
  on exit belongs to the display server and is not part of the state.
\<close>

section \<open>State\<close>

datatype process_state = ProcRunning | Zombie

record process =
  p_pid :: u64
  p_name :: string
  p_page_table :: "u64 option"
  p_threads :: "u64 list"
  p_state :: process_state
  p_parent_pid :: u64
  p_exit_code :: "u32 option"
  p_children :: "u64 list"
  p_is_linux :: bool
  p_uid :: u32
  p_gid :: u32

datatype signal = SigTerm | SigKill | SigStop | SigCont | SigInt | SigUsr1 | SigUsr2 | SigChild

record signal_context =
  sc_rip :: u64
  sc_rflags :: u64
  sc_rsp :: u64

record kern =
  k_procs :: "u64 \<rightharpoonup> process"
  k_next_pid :: u64
  k_sched :: sched
  k_fds :: proc_fds
  k_cwd :: cwd_table
  k_sig_queues :: "u64 \<rightharpoonup> signal list"
  k_sig_handlers :: "u64 \<rightharpoonup> u64 list"
  k_sig_contexts :: "u64 \<rightharpoonup> signal_context"
  k_sandboxes :: sandboxes
  k_caps :: caps_st

section \<open>Signals\<close>

definition send_signal :: "u64 \<Rightarrow> signal \<Rightarrow> kern \<Rightarrow> (string + unit) \<times> kern" where
  "send_signal tid sig k =
     (if \<not> list_ex (\<lambda>(i, _, _, _). i = tid) (list_threads (k_sched k)) then (Inl ''thread not found'', k)
      else (Inr (), k\<lparr>k_sig_queues := (k_sig_queues k)
        (tid \<mapsto> (case k_sig_queues k tid of None \<Rightarrow> [] | Some q \<Rightarrow> q) @ [sig])\<rparr>))"

definition pending_signal :: "u64 \<Rightarrow> kern \<Rightarrow> signal option \<times> kern" where
  "pending_signal tid k =
     (case k_sig_queues k tid of
        None \<Rightarrow> (None, k)
      | Some [] \<Rightarrow> (None, k)
      | Some (sig # q) \<Rightarrow> (Some sig, k\<lparr>k_sig_queues := (k_sig_queues k)(tid \<mapsto> q)\<rparr>))"

definition clear_signals :: "u64 \<Rightarrow> kern \<Rightarrow> kern" where
  "clear_signals tid k = k\<lparr>k_sig_queues := (k_sig_queues k)(tid := None)\<rparr>"

fun signal_name :: "signal \<Rightarrow> string" where
  "signal_name SigTerm = ''SIGTERM''"
| "signal_name SigKill = ''SIGKILL''"
| "signal_name SigStop = ''SIGSTOP''"
| "signal_name SigCont = ''SIGCONT''"
| "signal_name SigInt = ''SIGINT''"
| "signal_name SigUsr1 = ''SIGUSR1''"
| "signal_name SigUsr2 = ''SIGUSR2''"
| "signal_name SigChild = ''SIGCHLD''"

abbreviation MAX_SIGNALS :: nat where "MAX_SIGNALS \<equiv> 8"

fun signal_to_index :: "signal \<Rightarrow> nat" where
  "signal_to_index SigTerm = 0"
| "signal_to_index SigKill = 1"
| "signal_to_index SigStop = 2"
| "signal_to_index SigCont = 3"
| "signal_to_index SigInt = 4"
| "signal_to_index SigUsr1 = 5"
| "signal_to_index SigUsr2 = 6"
| "signal_to_index SigChild = 7"

definition init_handlers :: "u64 \<Rightarrow> kern \<Rightarrow> kern" where
  "init_handlers pid k = k\<lparr>k_sig_handlers := (k_sig_handlers k)(pid \<mapsto> replicate MAX_SIGNALS 0)\<rparr>"


definition clone_handlers :: "u64 \<Rightarrow> u64 \<Rightarrow> kern \<Rightarrow> kern" where
  "clone_handlers src dst k =
     (case k_sig_handlers k src of
        None \<Rightarrow> k
      | Some table \<Rightarrow> k\<lparr>k_sig_handlers := (k_sig_handlers k)(dst \<mapsto> table)\<rparr>)"

definition register_handler :: "u64 \<Rightarrow> nat \<Rightarrow> u64 \<Rightarrow> kern \<Rightarrow> (string + u64) \<times> kern" where
  "register_handler pid signum handler_addr k =
     (if MAX_SIGNALS \<le> signum then (Inl ''Invalid signal number'', k)
      else if signum = 1 \<or> signum = 2 then (Inl ''Cannot catch SIGKILL or SIGSTOP'', k)
      else case k_sig_handlers k pid of
        None \<Rightarrow> (Inl ''No handler table for process'', k)
      | Some table \<Rightarrow> (Inr (table ! signum),
          k\<lparr>k_sig_handlers := (k_sig_handlers k)(pid \<mapsto> table[signum := handler_addr])\<rparr>))"

definition get_handler :: "u64 \<Rightarrow> signal \<Rightarrow> kern \<Rightarrow> u64" where
  "get_handler pid sig k =
     (case k_sig_handlers k pid of None \<Rightarrow> 0 | Some table \<Rightarrow> table ! signal_to_index sig)"

definition has_handler :: "u64 \<Rightarrow> signal \<Rightarrow> kern \<Rightarrow> bool" where
  "has_handler pid sig k =
     (case k_sig_handlers k pid of None \<Rightarrow> False | Some table \<Rightarrow> table ! signal_to_index sig \<noteq> 0)"

definition sig_save_context :: "u64 \<Rightarrow> u64 \<Rightarrow> u64 \<Rightarrow> u64 \<Rightarrow> kern \<Rightarrow> kern" where
  "sig_save_context pid rip rflags rsp k =
     k\<lparr>k_sig_contexts := (k_sig_contexts k)(pid \<mapsto> \<lparr>sc_rip = rip, sc_rflags = rflags, sc_rsp = rsp\<rparr>)\<rparr>"

definition handle_sigreturn :: "u64 \<Rightarrow> kern \<Rightarrow> (u64 \<times> u64 \<times> u64) option \<times> kern" where
  "handle_sigreturn pid k =
     (case k_sig_contexts k pid of
        None \<Rightarrow> (None, k)
      | Some ctx \<Rightarrow> (Some (sc_rip ctx, sc_rflags ctx, sc_rsp ctx),
          k\<lparr>k_sig_contexts := (k_sig_contexts k)(pid := None)\<rparr>))"

section \<open>Processes\<close>

definition alloc_pid :: "kern \<Rightarrow> u64 \<times> kern" where
  "alloc_pid k = (k_next_pid k, k\<lparr>k_next_pid := k_next_pid k + 1\<rparr>)"

definition process_new_kernel :: "string \<Rightarrow> process" where
  "process_new_kernel name =
     \<lparr>p_pid = 0, p_name = name, p_page_table = None, p_threads = [], p_state = ProcRunning,
      p_parent_pid = 0, p_exit_code = None, p_children = [], p_is_linux = False, p_uid = 0, p_gid = 0\<rparr>"

definition process_new_user :: "u32 \<Rightarrow> string \<Rightarrow> u64 \<Rightarrow> bool \<Rightarrow> kern \<Rightarrow> process \<times> kern" where
  "process_new_user uid name pml4 is_linux k =
     (case alloc_pid k of (pid, k) \<Rightarrow>
      let k = k\<lparr>k_fds := create_fd_table pid (k_fds k), k_cwd := init_cwd pid (k_cwd k)\<rparr>;
          k = init_handlers pid k;
          k = k\<lparr>k_caps := linux_assign pid (if uid = 0 then capset_all else non_root_default) (k_caps k)\<rparr>
      in (\<lparr>p_pid = pid, p_name = name, p_page_table = Some pml4, p_threads = [], p_state = ProcRunning,
           p_parent_pid = 0, p_exit_code = None, p_children = [], p_is_linux = is_linux,
           p_uid = uid, p_gid = uid\<rparr>, k))"

definition process_init :: "kern \<Rightarrow> kern" where
  "process_init k = k\<lparr>k_procs := (k_procs k)(0 \<mapsto> process_new_kernel ''kernel'')\<rparr>"

definition exit_process :: "u64 \<Rightarrow> u32 \<Rightarrow> kern \<Rightarrow> kern" where
  "exit_process pid code k =
     (case k_procs k pid of
        None \<Rightarrow> k
      | Some proc \<Rightarrow> k\<lparr>k_procs := (k_procs k)
          (pid \<mapsto> proc\<lparr>p_state := Zombie, p_exit_code := Some code, p_page_table := None\<rparr>)\<rparr>)"




definition process_list :: "kern \<Rightarrow> (u64 \<times> string \<times> process_state \<times> u64 \<times> u32 option \<times> u64 list) list" where
  "process_list k = map (\<lambda>p. (p_pid p, p_name p, p_state p, p_parent_pid p, p_exit_code p, p_children p))
     (map_values (k_procs k))"

section \<open>Process system calls\<close>

text \<open>
  The part of \<open>spawn_user_process\<close> after the program is loaded: \<open>entry\<close>, \<open>stack_top\<close> and \<open>pml4\<close> are
  the results of loading.
\<close>

definition spawn_user_process ::
  "u32 \<Rightarrow> string \<Rightarrow> u64 \<Rightarrow> bool \<Rightarrow> u64 \<Rightarrow> u64 \<Rightarrow> u64 \<Rightarrow> u64 \<Rightarrow> kern \<Rightarrow> u64 \<times> kern" where
  "spawn_user_process uid name pml4 is_linux entry stack_top stack ticks k =
     (case process_new_user uid name pml4 is_linux k of (proc, k) \<Rightarrow>
      let pid = p_pid proc in
      case alloc_tid (k_sched k) of (tid, s) \<Rightarrow>
      let thread = fst (thread_new_user stack ticks name pid entry stack_top pml4 5 tid (\<lambda>_. 0));
          proc = proc\<lparr>p_threads := p_threads proc @ [t_tid thread]\<rparr>;
          k = k\<lparr>k_procs := (k_procs k)(pid \<mapsto> proc),
                k_sched := s\<lparr>ready_queue := ready_queue s @ [thread]\<rparr>\<rparr>;
          caps = (if name = ''sh'' \<or> name = ''guihello'' \<or> name = ''httpd'' then CAP_ALL else CAP_MINIMAL)
      in (pid, k\<lparr>k_sandboxes := create_sandbox pid name caps (k_sandboxes k)\<rparr>))"

text \<open>
  Fork. \<open>None\<close> is the panic of a process without a page table. The child's page table is the
  result of \<open>cow_fork\<close>; the address of its kernel stack and the timer are those of
  \<open>fork_current_thread\<close>.
\<close>

definition handle_fork :: "u32 \<Rightarrow> u64 \<Rightarrow> u64 \<Rightarrow> u64 \<Rightarrow> kern \<Rightarrow> (u64 \<times> kern) option" where
  "handle_fork uid child_pml4 stack ticks k =
     (let pid = (case current_pid (k_sched k) of None \<Rightarrow> 0 | Some p \<Rightarrow> p) in
      if pid = 0 then Some (- 1, k)
      else case k_procs k pid of
        None \<Rightarrow> Some (- 1, k)
      | Some proc \<Rightarrow> (case p_page_table proc of
          None \<Rightarrow> None
        | Some pml4 \<Rightarrow> (case process_new_user uid ''forked'' child_pml4 (p_is_linux proc) k of
            (child, k) \<Rightarrow>
              let child_pid = p_pid child;
                  child = child\<lparr>p_parent_pid := pid\<rparr>;
                  k = k\<lparr>k_fds := clone_fd_table pid child_pid (k_fds k)\<rparr>
              in case fork_current_thread stack ticks child_pid child_pml4 (k_sched k) of
                (child_tid, s) \<Rightarrow>
                  let k = k\<lparr>k_sched := s\<rparr>;
                      child = child\<lparr>p_threads := p_threads child @ [child_tid]\<rparr>;
                      table = (k_procs k)(child_pid \<mapsto> child);
                      table = (case table pid of None \<Rightarrow> table
                        | Some parent \<Rightarrow> table(pid \<mapsto> parent\<lparr>p_children := p_children parent @ [child_pid]\<rparr>))
                  in Some (child_pid, k\<lparr>k_procs := table\<rparr>))))"

definition handle_waitpid :: "u64 \<Rightarrow> kern \<Rightarrow> u64 \<times> kern" where
  "handle_waitpid target k = (0, k\<lparr>k_sched := block_current_thread (WaitPid target) (k_sched k)\<rparr>)"


definition sys_sleep :: "u64 \<Rightarrow> u64 \<Rightarrow> kern \<Rightarrow> kern" where
  "sys_sleep current_tick ms k =
     (if ms = 0 then k\<lparr>k_sched := yield_now (k_sched k)\<rparr>
      else let wake_at = current_tick + (ms * 100) div 1000
           in k\<lparr>k_sched := block_current_thread (WaitSleep wake_at) (k_sched k)\<rparr>)"

text \<open>
  The entry of the dispatcher. \<open>frozen\<close> is the verdict of the system-call monitor, \<open>run_linux\<close> the
  handler of Linux processes and \<open>run\<close> the native call. Only for native processes does the sandbox
  decide before the call runs; a denial is audited.
\<close>

definition is_linux_proc :: "kern \<Rightarrow> u64 \<Rightarrow> bool" where
  "is_linux_proc k pid = (case k_procs k pid of None \<Rightarrow> False | Some p \<Rightarrow> p_is_linux p)"

definition syscall_dispatcher ::
  "bool \<Rightarrow> (kern \<Rightarrow> u64 \<times> kern) \<Rightarrow> (kern \<Rightarrow> u64 \<times> kern) \<Rightarrow> u64 \<Rightarrow> kern \<Rightarrow> u64 \<times> kern" where
  "syscall_dispatcher frozen run_linux run nr k =
     (let pid = (case current_pid (k_sched k) of None \<Rightarrow> 0 | Some p \<Rightarrow> p);
          is_linux = (if pid \<noteq> 0 then is_linux_proc k pid else False) in
      if pid \<noteq> 0 \<and> frozen then (- 1, k)
      else if is_linux then run_linux k
      else if pid = 0 then run k
      else case check_syscall (is_linux_proc k) pid (unat nr) (k_sandboxes k) of
        (True, m) \<Rightarrow> run (k\<lparr>k_sandboxes := m\<rparr>)
      | (False, m) \<Rightarrow> (- 1, k\<lparr>k_sandboxes := m, k_caps := log_denied_syscall pid nr ''sandbox'' (k_caps k)\<rparr>))"

section \<open>The process tree\<close>









lemma send_signal_sel [simp]:
  "k_procs (snd (send_signal tid sig k)) = k_procs k" "k_next_pid (snd (send_signal tid sig k)) = k_next_pid k"
  "k_sched (snd (send_signal tid sig k)) = k_sched k" "k_fds (snd (send_signal tid sig k)) = k_fds k"
  "k_cwd (snd (send_signal tid sig k)) = k_cwd k" "k_sig_handlers (snd (send_signal tid sig k)) = k_sig_handlers k"
  by (simp_all add: send_signal_def)





lemma process_new_user_sel:
  assumes "process_new_user uid name pml4 is_linux k = (p, k')"
  shows "p_pid p = k_next_pid k" "p_children p = []" "p_parent_pid p = 0" "k_next_pid k' = k_next_pid k + 1"
    "k_procs k' = k_procs k" "k_sched k' = k_sched k" "k_sandboxes k' = k_sandboxes k"
    "k_fds k' = create_fd_table (k_next_pid k) (k_fds k)"
  using assms by (auto simp: process_new_user_def alloc_pid_def init_handlers_def Let_def)










text \<open>The state after \<open>process::init\<close>.\<close>

definition kern_boot :: kern where
  "kern_boot = process_init \<lparr>k_procs = Map.empty, k_next_pid = 1, k_sched = sched_init sched_new,
     k_fds = fd_init Map.empty, k_cwd = Map.empty, k_sig_queues = Map.empty, k_sig_handlers = Map.empty,
     k_sig_contexts = Map.empty, k_sandboxes = Map.empty, k_caps = caps_reset\<rparr>"


section \<open>Properties of processes\<close>





text \<open>
  C35: forking leaves the sandbox. A process that may fork gets a child without a profile, and a
  process without a profile passes every check: the child may do what the parent may not.
\<close>

theorem fork_escapes_sandbox:
  assumes "handle_fork uid child_pml4 stack ticks k = Some (child, k')" "child \<noteq> - 1"
    "k_sandboxes k child = None"
  shows "fst (check_syscall (is_linux_proc k') child nr (k_sandboxes k'))"
proof -
  have "k_sandboxes k' = k_sandboxes k"
    using assms(1) process_new_user_sel(7)
    by (auto simp: handle_fork_def Let_def split: option.splits if_splits prod.splits)
  then show ?thesis using assms(3) by (simp add: check_syscall_def)
qed

text \<open>A process that is started with minimal capabilities and now runs.\<close>

definition one_process :: kern where
  "one_process = (let k = snd (spawn_user_process 1000 ''app'' 4096 False 0 0 131072 0 kern_boot)
     in k\<lparr>k_sched := yield_now (k_sched k)\<rparr>)"

theorem fork_escapes_sandbox_witness:
  "\<exists>k'. handle_fork 1000 8192 262144 0 one_process = Some (2, k')
     \<and> fst (check_syscall (is_linux_proc k') 2 20 (k_sandboxes k'))
     \<and> \<not> fst (check_syscall (is_linux_proc k') 1 20 (k_sandboxes k'))"
proof -
  have boot: "k_procs kern_boot = [0 \<mapsto> process_new_kernel ''kernel'']" "k_next_pid kern_boot = 1"
    "k_sched kern_boot = sched_init sched_new" "k_sandboxes kern_boot = Map.empty"
    by (simp_all add: kern_boot_def process_init_def)
  have k: "current_pid (k_sched one_process) = Some 1" "k_next_pid one_process = 2"
    "k_sandboxes one_process = [1 \<mapsto> sandbox_profile_new ''app'' CAP_MINIMAL]"
    "\<exists>p. k_procs one_process 1 = Some p \<and> p_page_table p = Some 4096 \<and> \<not> p_is_linux p"
    by (simp_all add: one_process_def spawn_user_process_def process_new_user_def alloc_pid_def
        init_handlers_def boot alloc_tid_def sched_init_def sched_new_def yield_now_def switch_cpu_def
        boot_thread_def thread_new_user_def create_sandbox_def current_pid_def Let_def)
  then obtain p where p: "k_procs one_process 1 = Some p" "p_page_table p = Some 4096" "\<not> p_is_linux p" by blast
  obtain child k1 where new: "process_new_user 1000 ''forked'' 8192 False one_process = (child, k1)" by fastforce
  note sel = process_new_user_sel [OF new]
  obtain tid s where t: "fork_current_thread 262144 0 2 8192 (k_sched one_process) = (tid, s)" by fastforce
  have "\<exists>k'. handle_fork 1000 8192 262144 0 one_process = Some (2, k')
      \<and> k_sandboxes k' = k_sandboxes one_process \<and> \<not> is_linux_proc k' 1"
    using p by (simp add: handle_fork_def k(1,2) new sel t is_linux_proc_def Let_def)
  then obtain k' where k': "handle_fork 1000 8192 262144 0 one_process = Some (2, k')"
      "k_sandboxes k' = k_sandboxes one_process" "\<not> is_linux_proc k' 1" by blast
  moreover have "\<not> fst (check_syscall (is_linux_proc k') 1 20 (k_sandboxes k'))"
    by (simp add: k' k check_syscall_def sandbox_profile_new_def has_capability_def CAP_MINIMAL_def
        syscall_to_capability_def sandbox_caps)
  moreover have "fst (check_syscall (is_linux_proc k') 2 20 (k_sandboxes k'))"
    by (rule fork_escapes_sandbox [OF k'(1)]) (simp_all add: k(3))
  ultimately show ?thesis using k'(1) by blast
qed

end
