(* ===== verification/Ipc_Port.thy ===== *)
theory Ipc_Port
  imports Pack_Types Handles "HOL-Library.List_Lexorder" "HOL-Library.Char_ord"
begin

text \<open>
  Inter-process communication: bounded channels (\<open>kernel/src/ipc/channel.rs\<close>), the registry of named
  ports (\<open>port.rs\<close>) and the two system calls on them (\<open>syscall/handlers.rs\<close>). A channel is shared
  by everyone who holds its reference, so the state keeps the channels in a store by their
  number and the registry maps names to numbers.
\<close>

section \<open>Bounded queues\<close>

text \<open>The contract of a bounded queue, and what it means for a whole conversation.\<close>

datatype 'm queue_op = QPut 'm | QGet

locale bounded_fifo =
  fixes items :: "'s \<Rightarrow> 'm list"
    and cap :: "'s \<Rightarrow> nat"
    and put :: "'m \<Rightarrow> 's \<Rightarrow> bool \<times> 's"
    and get :: "'s \<Rightarrow> 'm option \<times> 's"
    and inv :: "'s \<Rightarrow> bool"
  assumes put_accept: "inv s \<Longrightarrow> length (items s) < cap s \<Longrightarrow> put m s = (b, s') \<Longrightarrow>
      b \<and> items s' = items s @ [m] \<and> cap s' = cap s \<and> inv s'"
    and put_full: "inv s \<Longrightarrow> cap s \<le> length (items s) \<Longrightarrow> put m s = (False, s)"
    and get_empty: "inv s \<Longrightarrow> items s = [] \<Longrightarrow> get s = (None, s)"
    and get_head: "inv s \<Longrightarrow> items s = m # ms \<Longrightarrow> get s = (r, s') \<Longrightarrow>
      r = Some m \<and> items s' = ms \<and> cap s' = cap s \<and> inv s'"
begin

text \<open>A conversation: the messages accepted and the messages delivered, in order.\<close>

fun converse :: "'m queue_op list \<Rightarrow> 's \<Rightarrow> 'm list \<times> 'm list \<times> 's" where
  "converse [] s = ([], [], s)"
| "converse (QPut m # ops) s =
     (case put m s of (b, s) \<Rightarrow> case converse ops s of (ins, outs, s) \<Rightarrow> (if b then m # ins else ins, outs, s))"
| "converse (QGet # ops) s =
     (case get s of (r, s) \<Rightarrow> case converse ops s of (ins, outs, s) \<Rightarrow>
       (ins, case r of None \<Rightarrow> outs | Some m \<Rightarrow> m # outs, s))"

lemma converse_fifo:
  "inv s \<Longrightarrow> length (items s) \<le> cap s \<Longrightarrow> converse ops s = (ins, outs, s') \<Longrightarrow>
     items s @ ins = outs @ items s' \<and> length (items s') \<le> cap s' \<and> cap s' = cap s \<and> inv s'"
proof (induction ops arbitrary: s ins outs)
  case (Cons oper ops)
  show ?case
  proof (cases oper)
    case (QPut m)
    obtain b t where p: "put m s = (b, t)" by fastforce
    obtain xs ys u where c: "converse ops t = (xs, ys, u)" by (metis prod_cases3)
    have res: "ins = (if b then m # xs else xs)" "outs = ys" "s' = u"
      using Cons.prems(3) by (auto simp: QPut p c)
    show ?thesis
    proof (cases "length (items s) < cap s")
      case True
      note a = put_accept [OF Cons.prems(1) True p]
      with Cons.IH [OF _ _ c [folded res(3)]] True show ?thesis by (auto simp: res)
    next
      case False
      then have "b = False" "t = s" using put_full [OF Cons.prems(1), of m] p by auto
      with Cons.IH [OF _ _ c [folded res(3)]] Cons.prems(1,2) show ?thesis by (simp add: res)
    qed
  next
    case QGet
    obtain r t where g: "get s = (r, t)" by fastforce
    obtain xs ys u where c: "converse ops t = (xs, ys, u)" by (metis prod_cases3)
    have res: "ins = xs" "outs = (case r of None \<Rightarrow> ys | Some m \<Rightarrow> m # ys)" "s' = u"
      using Cons.prems(3) by (auto simp: QGet g c)
    show ?thesis
    proof (cases "items s")
      case Nil
      then have "r = None" "t = s" using get_empty [OF Cons.prems(1)] g by auto
      with Cons.IH [OF _ _ c [folded res(3)]] Cons.prems(1,2) show ?thesis by (simp add: res)
    next
      case ms: (Cons m ms)
      note a = get_head [OF Cons.prems(1) ms g]
      with Cons.IH [OF _ _ c [folded res(3)]] ms Cons.prems(2) show ?thesis by (simp add: res)
    qed
  qed
qed auto

end

section \<open>Channels and ports\<close>

record message =
  m_sender_tid :: u64
  m_payload :: pack_value

record channel =
  ch_name :: string
  ch_queue :: "message list"
  ch_capacity :: nat

record ipc =
  ipc_channels :: "u64 \<rightharpoonup> channel"
  ipc_next_id :: u64
  ipc_ports :: "(string \<rightharpoonup> u64) option"

datatype channel_error = Full | Empty | NotFound

definition channel_new :: "string \<Rightarrow> nat \<Rightarrow> ipc \<Rightarrow> u64 \<times> ipc" where
  "channel_new name capacity s =
     (let i = ipc_next_id s in
      (i, s\<lparr>ipc_next_id := i + 1, ipc_channels := (ipc_channels s)
         (i \<mapsto> \<lparr>ch_name = name, ch_queue = [], ch_capacity = capacity\<rparr>)\<rparr>))"

text \<open>\<open>ch\<close> is a reference that the caller holds; the store always has its channel.\<close>

definition channel_send :: "u64 \<Rightarrow> u64 \<Rightarrow> pack_value \<Rightarrow> ipc \<Rightarrow> (channel_error + unit) \<times> ipc" where
  "channel_send ch sender_tid payload s =
     (case ipc_channels s ch of
        None \<Rightarrow> (Inl NotFound, s)
      | Some c \<Rightarrow>
          if ch_capacity c \<le> length (ch_queue c) then (Inl Full, s)
          else (Inr (), s\<lparr>ipc_channels := (ipc_channels s)(ch \<mapsto> c\<lparr>ch_queue := ch_queue c
            @ [\<lparr>m_sender_tid = sender_tid, m_payload = payload\<rparr>]\<rparr>)\<rparr>))"

definition channel_recv :: "u64 \<Rightarrow> ipc \<Rightarrow> (channel_error + message) \<times> ipc" where
  "channel_recv ch s =
     (case ipc_channels s ch of
        None \<Rightarrow> (Inl NotFound, s)
      | Some c \<Rightarrow> (case ch_queue c of
          [] \<Rightarrow> (Inl Empty, s)
        | m # q \<Rightarrow> (Inr m, s\<lparr>ipc_channels := (ipc_channels s)(ch \<mapsto> c\<lparr>ch_queue := q\<rparr>)\<rparr>)))"

definition channel_len :: "u64 \<Rightarrow> ipc \<Rightarrow> nat" where
  "channel_len ch s = (case ipc_channels s ch of None \<Rightarrow> 0 | Some c \<Rightarrow> length (ch_queue c))"

definition channel_has_messages :: "u64 \<Rightarrow> ipc \<Rightarrow> bool" where
  "channel_has_messages ch s = (case ipc_channels s ch of None \<Rightarrow> False | Some c \<Rightarrow> ch_queue c \<noteq> [])"

definition port_init :: "ipc \<Rightarrow> ipc" where
  "port_init s = s\<lparr>ipc_ports := Some Map.empty\<rparr>"

definition port_register :: "string \<Rightarrow> nat \<Rightarrow> ipc \<Rightarrow> u64 \<times> ipc" where
  "port_register name capacity s =
     (case channel_new name capacity s of (ch, s) \<Rightarrow>
       (ch, case ipc_ports s of None \<Rightarrow> s | Some ports \<Rightarrow> s\<lparr>ipc_ports := Some (ports(name \<mapsto> ch))\<rparr>))"

definition port_lookup :: "string \<Rightarrow> ipc \<Rightarrow> u64 option" where
  "port_lookup name s = Option.bind (ipc_ports s) (\<lambda>ports. ports name)"

definition list_ports :: "ipc \<Rightarrow> string list" where
  "list_ports s = (case ipc_ports s of None \<Rightarrow> [] | Some ports \<Rightarrow> map_keys ports)"

definition port_stats :: "ipc \<Rightarrow> (string \<times> nat) list" where
  "port_stats s = (case ipc_ports s of None \<Rightarrow> []
     | Some ports \<Rightarrow> map (\<lambda>k. (k, channel_len (the (ports k)) s)) (map_keys ports))"

definition sys_ipc_send :: "u64 option \<Rightarrow> string \<Rightarrow> pack_value \<Rightarrow> ipc \<Rightarrow> (string + unit) \<times> ipc" where
  "sys_ipc_send current_tid port_name payload s =
     (let tid = (case current_tid of None \<Rightarrow> 0 | Some t \<Rightarrow> t) in
      case port_lookup port_name s of
        None \<Rightarrow> (Inl ''Port not found'', s)
      | Some ch \<Rightarrow> (case channel_send ch tid payload s of
          (Inl _, s) \<Rightarrow> (Inl ''Channel full'', s)
        | (Inr _, s) \<Rightarrow> (Inr (), s)))"

definition sys_ipc_recv :: "string \<Rightarrow> ipc \<Rightarrow> (string + pack_value) \<times> ipc" where
  "sys_ipc_recv port_name s =
     (case port_lookup port_name s of
        None \<Rightarrow> (Inl ''Port not found'', s)
      | Some ch \<Rightarrow> (case channel_recv ch s of
          (Inl _, s) \<Rightarrow> (Inl ''Channel empty'', s)
        | (Inr m, s) \<Rightarrow> (Inr (m_payload m), s)))"

section \<open>Channels are handles and queues\<close>

text \<open>The system calls on one registered port are a bounded queue of payloads.\<close>

definition port_items :: "string \<Rightarrow> ipc \<Rightarrow> pack_value list" where
  "port_items name s = (case port_lookup name s of None \<Rightarrow> []
     | Some ch \<Rightarrow> (case ipc_channels s ch of None \<Rightarrow> [] | Some c \<Rightarrow> map m_payload (ch_queue c)))"

definition port_cap :: "string \<Rightarrow> ipc \<Rightarrow> nat" where
  "port_cap name s = (case port_lookup name s of None \<Rightarrow> 0
     | Some ch \<Rightarrow> (case ipc_channels s ch of None \<Rightarrow> 0 | Some c \<Rightarrow> ch_capacity c))"

definition port_live :: "string \<Rightarrow> ipc \<Rightarrow> bool" where
  "port_live name s = (case port_lookup name s of None \<Rightarrow> False | Some ch \<Rightarrow> ipc_channels s ch \<noteq> None)"

definition port_put :: "u64 option \<Rightarrow> string \<Rightarrow> pack_value \<Rightarrow> ipc \<Rightarrow> bool \<times> ipc" where
  "port_put tid name v s = apfst (\<lambda>r. r = Inr ()) (sys_ipc_send tid name v s)"

definition port_get :: "string \<Rightarrow> ipc \<Rightarrow> pack_value option \<times> ipc" where
  "port_get name s = apfst (\<lambda>r. case r of Inl _ \<Rightarrow> None | Inr v \<Rightarrow> Some v) (sys_ipc_recv name s)"

lemma port_liveE:
  assumes "port_live name s"
  obtains ch c where "port_lookup name s = Some ch" "ipc_channels s ch = Some c"
  using assms by (auto simp: port_live_def split: option.splits)

lemma port_lookup_channels [simp]: "port_lookup name (s\<lparr>ipc_channels := f\<rparr>) = port_lookup name s"
  by (simp add: port_lookup_def)

interpretation port_queue: bounded_fifo "port_items name" "port_cap name" "port_put tid name" "port_get name" "port_live name"
proof
  fix s m b s'
  assume live: "port_live name s"
  then obtain ch c where ch: "port_lookup name s = Some ch" "ipc_channels s ch = Some c" by (rule port_liveE)
  note unf = port_items_def port_cap_def port_put_def port_live_def sys_ipc_send_def channel_send_def
    port_get_def sys_ipc_recv_def channel_recv_def Let_def
  show "b \<and> port_items name s' = port_items name s @ [m] \<and> port_cap name s' = port_cap name s \<and> port_live name s'"
    if "length (port_items name s) < port_cap name s" "port_put tid name m s = (b, s')"
    using that ch by (auto simp: unf)
  show "port_put tid name m s = (False, s)" if "port_cap name s \<le> length (port_items name s)"
    using that ch by (auto simp: unf)
  show "port_get name s = (None, s)" if "port_items name s = []"
    using that ch by (auto simp: unf)
  show "r = Some m \<and> port_items name s' = ms \<and> port_cap name s' = port_cap name s \<and> port_live name s'"
    if "port_items name s = m # ms" "port_get name s = (r, s')" for ms r
    using that ch by (auto simp: unf)
qed

text \<open>
  C36: messages on a port are delivered in order, none is lost, duplicated or invented. In any
  interleaving of sends and receives on a fresh port, the payloads received followed by those
  still queued are exactly the payloads whose send succeeded, and the queue never exceeds the
  capacity of the port.
\<close>

theorem ipc_fifo:
  assumes "ipc_ports s0 = Some ports" "port_register name capacity s0 = (ch, s)"
    "port_queue.converse tid name ops s = (sent, received, s')"
  shows "sent = received @ port_items name s' \<and> length (port_items name s') \<le> capacity"
proof -
  have "port_live name s" "port_items name s = []" "port_cap name s = capacity"
    using assms(1,2)
    by (auto simp: port_register_def channel_new_def port_live_def port_items_def port_cap_def
        port_lookup_def Let_def)
  with port_queue.converse_fifo [OF _ _ assms(3)] show ?thesis by simp
qed

theorem ipc_fifo_witness:
  "\<exists>sent received s'. port_queue.converse (Some 1) ''vfs'' [QPut (UInt8 5), QPut (UInt8 6), QGet]
     (snd (port_register ''vfs'' 1 \<lparr>ipc_channels = Map.empty, ipc_next_id = 1, ipc_ports = Some Map.empty\<rparr>))
       = (sent, received, s')
   \<and> sent = received @ port_items ''vfs'' s' \<and> length (port_items ''vfs'' s') \<le> 1"
proof -
  let ?s0 = "\<lparr>ipc_channels = Map.empty, ipc_next_id = 1, ipc_ports = Some Map.empty\<rparr>"
  let ?ops = "[QPut (UInt8 5), QPut (UInt8 6), QGet]"
  obtain sent received s' where
    "port_queue.converse (Some 1) ''vfs'' ?ops (snd (port_register ''vfs'' 1 ?s0)) = (sent, received, s')"
    by (metis prod_cases3)
  with ipc_fifo [of ?s0 Map.empty "''vfs''" 1 "fst (port_register ''vfs'' 1 ?s0)"
      "snd (port_register ''vfs'' 1 ?s0)" "Some 1" ?ops sent received s'] show ?thesis by auto
qed

text \<open>
  A port that is registered again is a new, empty channel: messages queued under the name before
  can only be received by holders of the old reference.
\<close>

lemma port_register_again:
  assumes "ipc_ports s = Some ports"
  shows "port_items name (snd (port_register name capacity s)) = []"
  using assms by (simp add: port_register_def channel_new_def port_items_def port_lookup_def Let_def)

end
