(* ===== verification/Io_Async.thy ===== *)
theory Io_Async
  imports Handles
begin

text \<open>
  Asynchronous I/O: submission and completion rings with the kernel worker that serves them
  (\<open>kernel/src/io/ring.rs\<close>) and event polling (\<open>io/epoll.rs\<close>). The system calls that the worker
  performs and the copies from and to user memory are parameters of \<open>execute_sqe\<close>.
\<close>

unbundle bit_operations_syntax

section \<open>Rings\<close>

record sqe =
  sq_opcode :: u8
  sq_flags :: u8
  sq_fd :: u16
  sq_addr :: u64
  sq_len :: u32
  sq_user_data :: u64

record cqe =
  cq_user_data :: u64
  cq_res :: u32
  cq_flags :: u32

record io_ring =
  ring_sq :: "sqe list"
  ring_cq :: "cqe list"

definition io_ring_new :: io_ring where
  "io_ring_new = \<lparr>ring_sq = [], ring_cq = []\<rparr>"

text \<open>
  One operation. \<open>reader fd n\<close> is the result of \<open>sys_read\<close> or \<open>sys_tcp_recv\<close> into a buffer of \<open>n\<close>
  bytes, \<open>writer fd bs\<close> that of \<open>sys_write\<close> or \<open>sys_tcp_send\<close>, \<open>to_user\<close> and \<open>from_user\<close> the copies.
  Results are \<open>i32\<close> patterns, the error is minus one.
\<close>

record io_env =
  env_read :: "u16 \<Rightarrow> u32 \<Rightarrow> string + bytes"
  env_write :: "u16 \<Rightarrow> bytes \<Rightarrow> string + nat"
  env_tcp_recv :: "u16 \<Rightarrow> u32 \<Rightarrow> string + bytes"
  env_tcp_send :: "u16 \<Rightarrow> bytes \<Rightarrow> string + nat"
  env_to_user :: "u64 \<Rightarrow> bytes \<Rightarrow> bool"
  env_from_user :: "u64 \<Rightarrow> u32 \<Rightarrow> bytes option"

definition complete_read :: "io_env \<Rightarrow> sqe \<Rightarrow> (string + bytes) \<Rightarrow> u32" where
  "complete_read env e r =
     (case r of
        Inl _ \<Rightarrow> - 1
      | Inr bs \<Rightarrow> if env_to_user env (sq_addr e) bs then of_nat (length bs) else - 1)"

definition complete_write :: "io_env \<Rightarrow> sqe \<Rightarrow> (u16 \<Rightarrow> bytes \<Rightarrow> string + nat) \<Rightarrow> u32" where
  "complete_write env e writer =
     (case env_from_user env (sq_addr e) (sq_len e) of
        None \<Rightarrow> - 1
      | Some bs \<Rightarrow> (case writer (sq_fd e) bs of Inl _ \<Rightarrow> - 1 | Inr n \<Rightarrow> of_nat n))"

definition execute_sqe :: "io_env \<Rightarrow> sqe \<Rightarrow> u32" where
  "execute_sqe env e =
     (if sq_opcode e = 1 then complete_read env e (env_read env (sq_fd e) (sq_len e))
      else if sq_opcode e = 2 then complete_write env e (env_write env)
      else if sq_opcode e = 4 then complete_write env e (env_tcp_send env)
      else if sq_opcode e = 3 then complete_read env e (env_tcp_recv env (sq_fd e) (sq_len e))
      else - 1)"

text \<open>
  The worker in the steps between which the lock of the rings is free: it takes an entry, and
  later posts its completion. \<open>io_flight\<close> is the entry it works on.
\<close>

record io_state =
  io_rings :: "u64 \<rightharpoonup> io_ring"
  io_flight :: "(u64 \<times> sqe) option"

definition worker_take :: "u64 \<Rightarrow> io_state \<Rightarrow> io_state" where
  "worker_take pid s =
     (case io_rings s pid of
        None \<Rightarrow> s
      | Some ring \<Rightarrow> (case ring_sq ring of
          [] \<Rightarrow> s
        | e # q \<Rightarrow> s\<lparr>io_rings := (io_rings s)(pid \<mapsto> ring\<lparr>ring_sq := q\<rparr>), io_flight := Some (pid, e)\<rparr>))"

definition worker_post :: "io_env \<Rightarrow> io_state \<Rightarrow> io_state" where
  "worker_post env s =
     (case io_flight s of
        None \<Rightarrow> s
      | Some (pid, e) \<Rightarrow>
          let res = execute_sqe env e; s = s\<lparr>io_flight := None\<rparr> in
          case io_rings s pid of
            None \<Rightarrow> s
          | Some ring \<Rightarrow> s\<lparr>io_rings := (io_rings s)(pid \<mapsto> ring\<lparr>ring_cq := ring_cq ring
              @ [\<lparr>cq_user_data = sq_user_data e, cq_res = res, cq_flags = 0\<rparr>]\<rparr>)\<rparr>)"



text \<open>The steps of the worker interleaved with processes that submit and collect.\<close>

inductive io_step :: "io_state \<Rightarrow> io_state \<Rightarrow> bool" where
  Submit: "io_rings s pid = Some r \<Longrightarrow>
    io_step s (s\<lparr>io_rings := (io_rings s)(pid \<mapsto> r\<lparr>ring_sq := ring_sq r @ [e]\<rparr>)\<rparr>)"
| Take: "io_flight s = None \<Longrightarrow> io_step s (worker_take pid s)"
| Post: "io_step s (worker_post env s)"

text \<open>What a process has asked for and what it has been told, while it leaves its ring alone.\<close>

definition pending :: "u64 \<Rightarrow> io_state \<Rightarrow> u64 list" where
  "pending pid s =
     (case io_rings s pid of None \<Rightarrow> [] | Some r \<Rightarrow> map cq_user_data (ring_cq r))
     @ (case io_flight s of None \<Rightarrow> [] | Some (p, e) \<Rightarrow> if p = pid then [sq_user_data e] else [])
     @ (case io_rings s pid of None \<Rightarrow> [] | Some r \<Rightarrow> map sq_user_data (ring_sq r))"

lemma pending_take: "io_flight s = None \<Longrightarrow> pending p (worker_take pid s) = pending p s"
  by (auto simp: pending_def worker_take_def split: option.splits list.splits)

lemma pending_post: "io_rings s p \<noteq> None \<Longrightarrow> pending p (worker_post env s) = pending p s"
  by (auto simp: pending_def worker_post_def Let_def split: option.splits)

lemma rings_kept: "io_step s s' \<Longrightarrow> io_rings s p \<noteq> None \<Longrightarrow> io_rings s' p \<noteq> None"
  by (induction rule: io_step.induct)
    (auto simp: worker_take_def worker_post_def Let_def split: option.splits list.splits)

lemma pending_step:
  "io_step s s' \<Longrightarrow> io_rings s p \<noteq> None \<Longrightarrow> \<exists>new. pending p s' = pending p s @ new"
proof (induction rule: io_step.induct)
  case (Submit s pid r e)
  then show ?case
    by (cases "pid = p") (auto simp: pending_def split: option.splits)
qed (simp_all add: pending_take pending_post)

text \<open>
  Requests are completed in the order of their submission, exactly once. However submissions
  of other processes and the worker interleave, the completions of a process, the request in
  progress and the requests still queued, in this order, extend what they were before: nothing is
  lost, repeated or overtaken.
\<close>

theorem io_ring_order:
  assumes "io_step\<^sup>*\<^sup>* s s'" "io_rings s pid \<noteq> None"
  shows "\<exists>new. pending pid s' = pending pid s @ new"
proof -
  from assms(1) have "(\<exists>new. pending pid s' = pending pid s @ new) \<and> io_rings s' pid \<noteq> None"
  proof (induction rule: rtranclp_induct)
    case (step t u)
    then obtain n1 where n1: "pending pid t = pending pid s @ n1" by blast
    from step pending_step [of t u pid] obtain n2 where "pending pid u = pending pid t @ n2" by blast
    with n1 have "pending pid u = pending pid s @ (n1 @ n2)" by simp
    with step rings_kept [of t u pid] show ?case by blast
  qed (use assms(2) in simp)
  then show ?thesis by blast
qed

theorem io_ring_order_witness:
  "\<exists>new. pending 1 (worker_take 1 \<lparr>io_rings = [1 \<mapsto> io_ring_new], io_flight = None\<rparr>)
     = pending 1 \<lparr>io_rings = [1 \<mapsto> io_ring_new], io_flight = None\<rparr> @ new"
  by (rule io_ring_order [OF r_into_rtranclp [of io_step, OF io_step.Take]]) simp_all











section \<open>Event polling\<close>

record interest =
  in_events :: u32
  in_data :: u64
  in_fired :: bool

record epoll_event =
  ee_events :: u32
  ee_data :: u64

record epoll =
  ep_table :: "u64 \<rightharpoonup> (u64 \<rightharpoonup> interest)"
  ep_next_fd :: u64

abbreviation EPOLLIN :: u32 where "EPOLLIN \<equiv> 0x0001"
abbreviation EPOLLOUT :: u32 where "EPOLLOUT \<equiv> 0x0004"
abbreviation EPOLLRDNORM :: u32 where "EPOLLRDNORM \<equiv> 0x0040"
abbreviation EPOLLWRNORM :: u32 where "EPOLLWRNORM \<equiv> 0x0100"
abbreviation EPOLLONESHOT :: u32 where "EPOLLONESHOT \<equiv> 0x40000000"
abbreviation EPOLLET :: u32 where "EPOLLET \<equiv> 0x80000000"

definition epoll_create :: "epoll \<Rightarrow> u64 \<times> epoll" where
  "epoll_create s = (ep_next_fd s,
     s\<lparr>ep_next_fd := ep_next_fd s + 1, ep_table := (ep_table s)(ep_next_fd s \<mapsto> Map.empty)\<rparr>)"

definition epoll_close :: "u64 \<Rightarrow> epoll \<Rightarrow> epoll" where
  "epoll_close epfd s = s\<lparr>ep_table := (ep_table s)(epfd := None)\<rparr>"

definition epoll_ctl :: "u64 \<Rightarrow> u32 \<Rightarrow> u64 \<Rightarrow> epoll_event option \<Rightarrow> epoll \<Rightarrow> u64 \<times> epoll" where
  "epoll_ctl epfd oper fd event s =
     (case ep_table s epfd of
        None \<Rightarrow> (- 22, s)
      | Some m \<Rightarrow>
          let ev = (case event of Some e \<Rightarrow> e | None \<Rightarrow> \<lparr>ee_events = 0, ee_data = 0\<rparr>);
              set_to = (\<lambda>i. s\<lparr>ep_table := (ep_table s)(epfd \<mapsto> m(fd := i))\<rparr>);
              armed = \<lparr>in_events = ee_events ev, in_data = ee_data ev, in_fired = False\<rparr>
          in if oper = 1 then (if m fd \<noteq> None then (- 17, s) else (0, set_to (Some armed)))
             else if oper = 3 then (if m fd = None then (- 2, s) else (0, set_to (Some armed)))
             else if oper = 2 then (if m fd = None then (- 2, s) else (0, set_to None))
             else (- 22, s))"

definition ready_mask :: "u32 \<Rightarrow> u32" where
  "ready_mask interest =
     (let ready = (if interest AND (EPOLLIN OR EPOLLRDNORM) \<noteq> 0 then EPOLLIN else 0)
      in if interest AND (EPOLLOUT OR EPOLLWRNORM) \<noteq> 0 then ready OR EPOLLOUT else ready)"

fun epoll_scan :: "nat \<Rightarrow> u64 list \<Rightarrow> (u64 \<rightharpoonup> interest) \<Rightarrow> epoll_event list \<Rightarrow> epoll_event list \<times> (u64 \<rightharpoonup> interest)" where
  "epoll_scan cap [] m out = (out, m)"
| "epoll_scan cap (fd # fds) m out =
     (if cap \<le> length out then (out, m)
      else let entry = the (m fd) in
        if in_events entry AND EPOLLONESHOT \<noteq> 0 \<and> in_fired entry then epoll_scan cap fds m out
        else
          let ready = ready_mask (in_events entry AND NOT (EPOLLET OR EPOLLONESHOT)) in
          if ready = 0 then epoll_scan cap fds m out
          else
            let out = out @ [\<lparr>ee_events = ready, ee_data = in_data entry\<rparr>];
                m = (if in_events entry AND EPOLLONESHOT \<noteq> 0 then m(fd \<mapsto> entry\<lparr>in_fired := True\<rparr>) else m)
            in epoll_scan cap fds m out)"

definition epoll_wait :: "u64 \<Rightarrow> nat \<Rightarrow> epoll \<Rightarrow> epoll_event list \<times> epoll" where
  "epoll_wait epfd maxevents s =
     (let cap = min maxevents 1024 in
      case ep_table s epfd of
        None \<Rightarrow> ([], s)
      | Some m \<Rightarrow> (case epoll_scan cap (map_keys m) m [] of
          (out, m) \<Rightarrow> (out, s\<lparr>ep_table := (ep_table s)(epfd \<mapsto> m)\<rparr>)))"

definition epoll_rearm :: "u64 \<Rightarrow> u64 \<Rightarrow> epoll \<Rightarrow> epoll" where
  "epoll_rearm epfd fd s =
     (case ep_table s epfd of
        None \<Rightarrow> s
      | Some m \<Rightarrow> (case m fd of
          None \<Rightarrow> s
        | Some e \<Rightarrow> s\<lparr>ep_table := (ep_table s)(epfd \<mapsto> m(fd \<mapsto> e\<lparr>in_fired := False\<rparr>))\<rparr>))"

definition epoll_interest_count :: "u64 \<Rightarrow> epoll \<Rightarrow> nat" where
  "epoll_interest_count epfd s = (case ep_table s epfd of None \<Rightarrow> 0 | Some m \<Rightarrow> map_len m)"

text \<open>The declarative reading of a wait.\<close>

definition oneshot :: "interest \<Rightarrow> bool" where
  "oneshot e = (in_events e AND EPOLLONESHOT \<noteq> 0)"

definition event_of :: "interest \<Rightarrow> epoll_event" where
  "event_of e = \<lparr>ee_events = ready_mask (in_events e AND NOT (EPOLLET OR EPOLLONESHOT)), ee_data = in_data e\<rparr>"

definition deliverable :: "interest \<Rightarrow> bool" where
  "deliverable e = (\<not> (oneshot e \<and> in_fired e) \<and> ee_events (event_of e) \<noteq> 0)"

definition fire :: "u64 set \<Rightarrow> (u64 \<rightharpoonup> interest) \<Rightarrow> (u64 \<rightharpoonup> interest)" where
  "fire fds m = (\<lambda>fd. if fd \<in> fds then map_option (\<lambda>e. if oneshot e then e\<lparr>in_fired := True\<rparr> else e) (m fd) else m fd)"

definition due :: "(u64 \<rightharpoonup> interest) \<Rightarrow> u64 list \<Rightarrow> u64 list" where
  "due m fds = filter (\<lambda>fd. deliverable (the (m fd))) fds"

lemma fire_empty [simp]: "fire {} m = m"
  by (simp add: fire_def)

lemma fire_other: "fd \<notin> fds \<Longrightarrow> fire fds m fd = m fd"
  by (simp add: fire_def)

lemma fire_insert:
  "m fd = Some e \<Longrightarrow> fd \<notin> fds \<Longrightarrow>
   fire fds (if oneshot e then m(fd \<mapsto> e\<lparr>in_fired := True\<rparr>) else m) = fire (insert fd fds) m"
  by (auto simp: fire_def fun_eq_iff)

lemma due_cong: "(\<forall>x \<in> set fds. m x = m' x) \<Longrightarrow> due m fds = due m' fds"
  by (auto simp: due_def intro: filter_cong)

lemma epoll_scan_Cons:
  assumes "m fd = Some e" "length out < cap"
  shows "epoll_scan cap (fd # fds) m out =
    (if deliverable e
     then epoll_scan cap fds (if oneshot e then m(fd \<mapsto> e\<lparr>in_fired := True\<rparr>) else m) (out @ [event_of e])
     else epoll_scan cap fds m out)"
  using assms by (simp add: deliverable_def event_of_def oneshot_def Let_def)

lemma epoll_scan_spec:
  assumes "distinct fds" "set fds \<subseteq> dom m"
  shows "epoll_scan cap fds m out =
    (out @ map (\<lambda>fd. event_of (the (m fd))) (take (cap - length out) (due m fds)),
     fire (set (take (cap - length out) (due m fds))) m)"
  using assms
proof (induction fds arbitrary: m out)
  case Nil
  then show ?case by (simp add: due_def)
next
  case (Cons fd fds)
  then obtain e where e: "m fd = Some e" by auto
  show ?case
  proof (cases "length out < cap \<and> deliverable e")
    case True
    define m' where "m' = (if oneshot e then m(fd \<mapsto> e\<lparr>in_fired := True\<rparr>) else m)"
    have same: "\<forall>x \<in> set fds. m' x = m x" using Cons.prems by (auto simp: m'_def)
    have due: "due m (fd # fds) = fd # due m' fds"
      using True e due_cong [OF same] by (simp add: due_def)
    obtain k where k: "cap - length out = Suc k" "k = cap - length (out @ [event_of e])"
      using True by (cases "cap - length out") auto
    have sub: "set (take k (due m' fds)) \<subseteq> set fds"
      using set_take_subset [of k "due m' fds"] by (auto simp: due_def)
    have "epoll_scan cap fds m' (out @ [event_of e]) =
      ((out @ [event_of e]) @ map (\<lambda>fd. event_of (the (m' fd))) (take k (due m' fds)),
       fire (set (take k (due m' fds))) m')"
      unfolding k(2) by (rule Cons.IH) (use Cons.prems in \<open>auto simp: m'_def\<close>)
    moreover have "map (\<lambda>fd. event_of (the (m' fd))) (take k (due m' fds))
        = map (\<lambda>fd. event_of (the (m fd))) (take k (due m' fds))"
      using sub same by (intro map_cong) auto
    moreover have "fire (set (take k (due m' fds))) m' = fire (insert fd (set (take k (due m' fds)))) m"
    proof -
      have "fd \<notin> set (take k (due m' fds))" using sub Cons.prems(1) by auto
      from fire_insert [of m fd e, OF e this] show ?thesis unfolding m'_def .
    qed
    ultimately show ?thesis
      using True e by (simp add: epoll_scan_Cons due k(1) del: epoll_scan.simps(2) flip: m'_def)
  next
    case False
    then show ?thesis
    proof (cases "length out < cap")
      case True
      with False e have "due m (fd # fds) = due m fds" by (simp add: due_def)
      with True False Cons e show ?thesis by (simp add: epoll_scan_Cons del: epoll_scan.simps(2))
    qed simp
  qed
qed

lemma deliverable_fired: "deliverable e \<Longrightarrow> oneshot e \<Longrightarrow> \<not> deliverable (e\<lparr>in_fired := True\<rparr>)"
  by (simp add: deliverable_def oneshot_def)

text \<open>
  C39: a wait reports the ready descriptors in ascending order, at most \<open>maxevents\<close> and at most 1024
  of them, each with the data of its registration, and a one-shot registration that it has
  reported is not reported by the next wait, while every other registration is unchanged.
\<close>

theorem epoll_wait_exact:
  assumes "ep_table s epfd = Some m" "finite (dom m)" "epoll_wait epfd maxevents s = (out, s')"
    "reported = take (min maxevents 1024) (due m (map_keys m))"
  shows "out = map (\<lambda>fd. event_of (the (m fd))) reported
    \<and> sorted (map_keys m) \<and> set (map_keys m) = dom m \<and> length out \<le> min maxevents 1024
    \<and> (\<exists>m'. ep_table s' = (ep_table s)(epfd \<mapsto> m') \<and> dom m' = dom m
         \<and> (\<forall>fd e. m fd = Some e \<longrightarrow> \<not> (fd \<in> set reported \<and> oneshot e) \<longrightarrow> m' fd = Some e)
         \<and> (\<forall>fd \<in> set reported. oneshot (the (m fd)) \<longrightarrow> fd \<notin> set (due m' (map_keys m'))))"
proof -
  let ?m = "fire (set reported) m"
  have keys: "sorted (map_keys m)" "distinct (map_keys m)" "set (map_keys m) = dom m"
    using assms(2) by (simp_all add: map_keys_def)
  have scan: "epoll_scan (min maxevents 1024) (map_keys m) m []
      = (map (\<lambda>fd. event_of (the (m fd))) reported, ?m)"
    using epoll_scan_spec [of "map_keys m" m "min maxevents 1024" "[]"] keys assms(4) by simp
  then have out: "out = map (\<lambda>fd. event_of (the (m fd))) reported"
    and s': "ep_table s' = (ep_table s)(epfd \<mapsto> ?m)"
    using assms(1,3) by (auto simp: epoll_wait_def Let_def)
  have dom: "dom ?m = dom m" by (auto simp: fire_def split: if_splits)
  have quiet: "fd \<notin> set (due ?m xs)" if "fd \<in> set reported" "oneshot (the (m fd))" for fd xs
  proof -
    have "fd \<in> dom m" "deliverable (the (m fd))"
      using that(1) assms(4) keys(3) in_set_takeD [of fd _ "due m (map_keys m)"] by (auto simp: due_def)
    with that show ?thesis by (auto simp: due_def fire_def deliverable_fired)
  qed
  have same: "?m fd = Some e" if "m fd = Some e" "\<not> (fd \<in> set reported \<and> oneshot e)" for fd e
    using that by (auto simp: fire_def)
  show ?thesis using out s' dom quiet same keys assms(4) by auto
qed

definition epoll_demo :: epoll where
  "epoll_demo = \<lparr>ep_table = [10000 \<mapsto> [7 \<mapsto> \<lparr>in_events = EPOLLOUT OR EPOLLONESHOT, in_data = 42, in_fired = False\<rparr>]],
     ep_next_fd = 10001\<rparr>"

lemma epoll_demo_due:
  "ep_table epoll_demo 10000 = Some [7 \<mapsto> \<lparr>in_events = EPOLLOUT OR EPOLLONESHOT, in_data = 42, in_fired = False\<rparr>]"
  "due [7 \<mapsto> \<lparr>in_events = EPOLLOUT OR EPOLLONESHOT, in_data = 42, in_fired = False\<rparr>] [7] = [7]"
  by (simp_all add: epoll_demo_def due_def deliverable_def event_of_def oneshot_def ready_mask_def)

theorem epoll_wait_exact_witness:
  "fst (epoll_wait 10000 8 epoll_demo) = [\<lparr>ee_events = EPOLLOUT, ee_data = 42\<rparr>]"
proof -
  let ?m = "[7 \<mapsto> \<lparr>in_events = EPOLLOUT OR EPOLLONESHOT, in_data = 42, in_fired = False\<rparr>] :: u64 \<rightharpoonup> interest"
  obtain out s' where w: "epoll_wait 10000 8 epoll_demo = (out, s')" by fastforce
  have "out = map (\<lambda>fd. event_of (the (?m fd))) (take (min 8 1024) (due ?m (map_keys ?m)))"
    using epoll_wait_exact [OF epoll_demo_due(1) _ w refl] by simp
  moreover have "map_keys ?m = [7]" by (simp add: map_keys_def)
  ultimately have "out = [event_of (the (?m 7))]" using epoll_demo_due(2) by simp
  then show ?thesis using w by (simp add: event_of_def ready_mask_def)
qed

end
