(* ===== verification/Spec2Isabelle.thy ===== *)
theory Spec2Isabelle
  imports Pack_Pkg Fs_Chunking Fs_Ram Fs_Disk_Files Fs_Journal Mem_Shmem Proc_Process Ipc_Port Io_Async
begin

text \<open>
  Verification of Smart OS.
\<close>

end
